theory Spec2Isabelle
  imports Complex_Main "HOL-Library.Sublist"
begin

section \<open>The semantic-guided router: sanitizer, classifiers, scene plan, serializer\<close>

text \<open>
  A shallow embedding of \<^verbatim>\<open>visual-code/runtime/vlig_semantic_guided_router.cpp\<close>.
  A \<^verbatim>\<open>std::string\<close> is a \<^typ>\<open>string\<close> (a list of 8-bit characters, so that
  \<^const>\<open>length\<close> is the byte length), an \<^verbatim>\<open>enum class\<close> is a datatype, a struct is a
  record and a thrown exception is the \<^const>\<open>Inl\<close> side of a sum.
\<close>

subsection \<open>Enumerations\<close>

text \<open>
  The enumerators keep their names; \<^verbatim>\<open>Auto\<close>, \<^verbatim>\<open>None\<close> and the enumerators of
  \<^verbatim>\<open>VCBrushDetail\<close> carry a prefix, since two enumerations share those names.
\<close>

datatype VCIGMode = TextToImage | ImageToImage | Inpaint | Outpaint

datatype VCQualityPreset = Draft | Standard | High | Ultra

datatype VCSafetyProfile = Safe | AllowNSFW

datatype VCColorTone = Neutral | Warm | Cool | HighContrast | Pastel

datatype VCLighting = LightAuto | Soft | Hard | Dramatic | Studio

datatype VCCameraAngle = EyeLevel | LowAngle | HighAngle | TopDown | Isometric | CloseUp | WideShot

datatype VCArtStyle =
  Unspecified | Photorealistic | DigitalPainting | Watercolor | Anime | LineArt | LowPoly
  | PixelArt | ConceptArt

datatype VCCompositionRule =
  RuleNone | RuleOfThirds | Centered | GoldenRatio | Symmetric | LeadingLines

datatype VCAspectRatio = Ratio_1_1 | Ratio_16_9 | Ratio_9_16 | Ratio_4_3 | Ratio_3_4 | Ratio_21_9

datatype VCBrushDetail = BrushAuto | BrushMinimal | BrushNormal | BrushHigh | BrushHyper

subsection \<open>Characters\<close>

text \<open>The byte value of a character, as \<^verbatim>\<open>static_cast<unsigned char>\<close> reads it.\<close>

definition byte :: "char \<Rightarrow> nat" where
  "byte c = of_char c"

definition isAsciiPrintable :: "char \<Rightarrow> bool" where
  "isAsciiPrintable c = (32 \<le> byte c \<and> byte c \<le> 126)"

abbreviation chNL :: char where "chNL \<equiv> CHR 0x0A"
abbreviation chTAB :: char where "chTAB \<equiv> CHR 0x09"
abbreviation chCR :: char where "chCR \<equiv> CHR 0x0D"
abbreviation chSP :: char where "chSP \<equiv> CHR '' ''"
abbreviation chSTAR :: char where "chSTAR \<equiv> CHR ''*''"

subsection \<open>Sanitizer stages\<close>

text \<open>\<^verbatim>\<open>stripControl\<close>: the loop pushes every character that passes the test, in order.\<close>

definition stripControl :: "string \<Rightarrow> string" where
  "stripControl inp = filter (\<lambda>c. isAsciiPrintable c \<or> c = chNL \<or> c = chTAB) inp"

text \<open>
  \<^verbatim>\<open>collapseWhitespace\<close>: the loop state is the output built so far and the flag
  \<^verbatim>\<open>space\<close>; after the loop one trailing space is popped.
\<close>

definition isWs :: "char \<Rightarrow> bool" where
  "isWs c = (c = chSP \<or> c = chTAB \<or> c = chNL \<or> c = chCR)"

definition cwStep :: "string \<times> bool \<Rightarrow> char \<Rightarrow> string \<times> bool" where
  "cwStep st c =
     (case st of (out, space) \<Rightarrow>
        if isWs c then (if \<not> space then (out @ [chSP], True) else (out, space))
        else (out @ [c], False))"

definition collapseWhitespace :: "string \<Rightarrow> string" where
  "collapseWhitespace inp =
     (let out = fst (foldl cwStep ([], False) inp)
      in if out \<noteq> [] \<and> last out = chSP then butlast out else out)"

text \<open>\<^verbatim>\<open>toLowerASCII\<close>: \<^verbatim>\<open>c - 'A' + 'a'\<close> on the bytes 65..90, every other byte kept.\<close>

definition lowerChar :: "char \<Rightarrow> char" where
  "lowerChar c = (if 65 \<le> byte c \<and> byte c \<le> 90 then char_of (byte c - 65 + 97) else c)"

definition toLowerASCII :: "string \<Rightarrow> string" where
  "toLowerASCII inp = map lowerChar inp"

text \<open>
  \<^verbatim>\<open>std::string::find(t, pos)\<close>: the least index \<open>i \<ge> pos\<close> at which \<open>t\<close> occurs in
  \<open>s\<close>, \<^verbatim>\<open>npos\<close> (here \<^const>\<open>None\<close>) when there is none or \<open>pos\<close> is past the end.
\<close>

fun findIn :: "string \<Rightarrow> string \<Rightarrow> nat \<Rightarrow> nat option" where
  "findIn t [] i = (if t = [] then Some i else None)"
| "findIn t (c # cs) i = (if prefix t (c # cs) then Some i else findIn t cs (Suc i))"

definition str_find :: "string \<Rightarrow> string \<Rightarrow> nat \<Rightarrow> nat option" where
  "str_find s t pos = (if length s < pos then None else findIn t (drop pos s) pos)"

definition kBlockList :: "string list" where
  "kBlockList = [''nsfw'', ''nude'', ''nudity'', ''porn'', ''explicit'', ''sexual'', ''erotic'']"

text \<open>
  The inner \<^verbatim>\<open>for\<close> loop of \<^verbatim>\<open>stripNSFWMarkers\<close>: it writes \<open>*\<close> at \<open>pos + i\<close> in both
  buffers while \<open>i < t.size()\<close> and \<open>pos + i < out.size()\<close>. Both buffers have the length
  of the input throughout, so no write is out of range.
\<close>

function maskSpan :: "nat \<Rightarrow> nat \<Rightarrow> nat \<Rightarrow> string \<Rightarrow> string \<Rightarrow> string \<times> string" where
  "maskSpan n pos i out lower =
     (if i < n \<and> pos + i < length out
      then maskSpan n pos (Suc i) (out[pos + i := chSTAR]) (lower[pos + i := chSTAR])
      else (out, lower))"
  by pat_completeness auto
termination
  by (relation "measure (\<lambda>(n, pos, i, out, lower). n - i)") auto

declare maskSpan.simps [simp del]

lemma maskSpan_length:
  "length (fst (maskSpan n pos i out lower)) = length out
   \<and> length (snd (maskSpan n pos i out lower)) = length lower"
proof (induction n pos i out lower rule: maskSpan.induct)
  case (1 n pos i out lower)
  then show ?case by (simp add: maskSpan.simps [of n pos i out lower])
qed

lemma findIn_bounds:
  "findIn t xs i = Some p \<Longrightarrow> i \<le> p \<and> (p - i) + length t \<le> length xs"
proof (induction xs arbitrary: i)
  case Nil
  then show ?case by (simp split: if_splits)
next
  case (Cons c cs)
  show ?case
  proof (cases "prefix t (c # cs)")
    case True
    then have "p = i" using Cons.prems by simp
    moreover have "length t \<le> length (c # cs)" using True by (rule prefix_length_le)
    ultimately show ?thesis by simp
  next
    case False
    then have "findIn t cs (Suc i) = Some p" using Cons.prems by simp
    from Cons.IH [OF this] show ?thesis by (simp; linarith)
  qed
qed

lemma str_find_bounds:
  "str_find s t pos = Some p \<Longrightarrow> pos \<le> p \<and> p + length t \<le> length s"
  by (auto simp: str_find_def split: if_splits dest!: findIn_bounds)

lemma maskSpan_eqD:
  "(out', lower') = maskSpan n pos i out lower \<Longrightarrow>
   length out' = length out \<and> length lower' = length lower"
  using maskSpan_length [of n pos i out lower] by (metis fst_conv snd_conv)

text \<open>
  The \<^verbatim>\<open>while (true)\<close> loop of \<^verbatim>\<open>stripNSFWMarkers\<close> for one token \<open>t\<close>: find the next
  occurrence in \<open>lower\<close> from \<open>pos\<close>, stop at \<^verbatim>\<open>npos\<close>, otherwise mask the span in both
  buffers and go on from \<open>pos + t.size()\<close>. The list \<open>hits\<close> is a ghost variable: it
  records the token and position of every match, in the order the loop finds them.
  Every token of the block list is non-empty; for the empty token the source loop would
  never advance, and \<open>maskLoop\<close> stops there instead (that branch is never taken from
  \<open>stripNSFWMarkers\<close>).
\<close>

function maskLoop ::
  "string \<Rightarrow> string \<Rightarrow> string \<Rightarrow> (string \<times> nat) list \<Rightarrow> nat
    \<Rightarrow> string \<times> string \<times> (string \<times> nat) list" where
  "maskLoop t lower out hits pos =
     (case str_find lower t pos of
        None \<Rightarrow> (lower, out, hits)
      | Some p \<Rightarrow>
          if t = [] then (lower, out, hits)
          else (case maskSpan (length t) p 0 out lower of
                  (out', lower') \<Rightarrow> maskLoop t lower' out' (hits @ [(t, p)]) (p + length t)))"
  by pat_completeness auto
termination
  apply (relation "measure (\<lambda>(t, lower, out, hits, pos). length lower - pos)")
   apply simp
  apply (auto dest!: str_find_bounds maskSpan_eqD)
  subgoal for t lower out pos x2 x y
    by (cases t) auto
  done

declare maskLoop.simps [simp del]

text \<open>
  The same loop with no guard, exactly as the source has it; not returning is the value
  \<^const>\<open>None\<close>. On a non-empty token it returns what \<open>maskLoop\<close> returns
  (\<open>maskLoopSrc_terminates\<close> below).
\<close>

partial_function (option) maskLoopSrc ::
  "string \<Rightarrow> string \<Rightarrow> string \<Rightarrow> (string \<times> nat) list \<Rightarrow> nat
    \<Rightarrow> (string \<times> string \<times> (string \<times> nat) list) option" where
  "maskLoopSrc t lower out hits pos =
     (case str_find lower t pos of
        None \<Rightarrow> Some (lower, out, hits)
      | Some p \<Rightarrow>
          (case maskSpan (length t) p 0 out lower of
             (out', lower') \<Rightarrow> maskLoopSrc t lower' out' (hits @ [(t, p)]) (p + length t)))"

definition maskAll :: "string \<Rightarrow> string \<times> string \<times> (string \<times> nat) list" where
  "maskAll inp =
     foldl (\<lambda>st t. case st of (lower, out, hits) \<Rightarrow> maskLoop t lower out hits 0)
       (toLowerASCII inp, inp, []) kBlockList"

definition stripNSFWMarkers :: "string \<Rightarrow> string" where
  "stripNSFWMarkers inp = (case maskAll inp of (lower, out, hits) \<Rightarrow> out)"

text \<open>The ghost record of the matches of a run of \<^verbatim>\<open>stripNSFWMarkers\<close>.\<close>

definition maskHits :: "string \<Rightarrow> (string \<times> nat) list" where
  "maskHits inp = (case maskAll inp of (lower, out, hits) \<Rightarrow> hits)"

text \<open>
  \<^verbatim>\<open>sanitizePromptForVision\<close>: \<^verbatim>\<open>std::invalid_argument("empty prompt")\<close> is
  \<open>InvalidInput\<close>, \<^verbatim>\<open>std::runtime_error("prompt sanitized to empty")\<close> is
  \<open>SanitizationExhausted\<close>.
\<close>

datatype error = InvalidInput | SanitizationExhausted

definition sanitizePromptForVision :: "string \<Rightarrow> error + string" where
  "sanitizePromptForVision raw =
     (if raw = [] then Inl InvalidInput
      else
        let step1 = stripControl raw;
            step2 = collapseWhitespace step1;
            step3 = stripNSFWMarkers step2
        in if step3 = [] then Inl SanitizationExhausted
           else Inr (if length step3 > 8000 then take 8000 step3 else step3))"

subsection \<open>Scene plan\<close>

record VCSubjectDescriptor =
  name :: string
  attributes :: string
  positionHint :: string

record VCBackgroundDescriptor =
  environment :: string
  timeOfDay :: string
  weather :: string

record VCColorLightingDescriptor =
  colorTone :: VCColorTone
  lighting :: VCLighting
  paletteHint :: string

text \<open>
  The \<^verbatim>\<open>float\<close> field \<^verbatim>\<open>focalLengthMM\<close> is a \<^typ>\<open>real\<close>; the program stores only
  \<^verbatim>\<open>35.0f\<close> in it and reads it only to print it.
\<close>

record VCCameraDescriptor =
  angle :: VCCameraAngle
  focalLengthMM :: real
  depthOfField :: bool

record VCCompositionDescriptor =
  rule :: VCCompositionRule
  allowCropping :: bool
  centerMainSubject :: bool

record VCArtStyleDescriptor =
  style :: VCArtStyle
  brushDetail :: VCBrushDetail
  eraHint :: string

record VCNegativeConstraints =
  visualArtifacts :: string
  contentExclusions :: string

record VCScenePlan =
  corePrompt :: string
  primarySubject :: VCSubjectDescriptor
  secondarySubjects :: "VCSubjectDescriptor list"
  background :: VCBackgroundDescriptor
  colorLighting :: VCColorLightingDescriptor
  camera :: VCCameraDescriptor
  composition :: VCCompositionDescriptor
  artStyle :: VCArtStyleDescriptor
  negatives :: VCNegativeConstraints
  aspectRatio :: VCAspectRatio
  mode :: VCIGMode
  safety :: VCSafetyProfile
  quality :: VCQualityPreset

subsection \<open>Classifier bank\<close>

text \<open>\<^verbatim>\<open>lower.find(t) != std::string::npos\<close>.\<close>

definition found :: "string \<Rightarrow> string \<Rightarrow> bool" where
  "found lower t = (str_find lower t 0 \<noteq> None)"

definition guessAspectFromText :: "string \<Rightarrow> VCAspectRatio" where
  "guessAspectFromText lower =
     (if found lower ''vertical'' \<or> found lower ''portrait'' \<or> found lower ''9:16''
      then Ratio_9_16
      else if found lower ''cinematic'' \<or> found lower ''wide'' \<or> found lower ''16:9''
              \<or> found lower ''21:9''
      then (if found lower ''21:9'' then Ratio_21_9 else Ratio_16_9)
      else if found lower ''4:3'' then Ratio_4_3
      else if found lower ''3:4'' then Ratio_3_4
      else Ratio_1_1)"

definition guessArtStyle :: "string \<Rightarrow> VCArtStyle" where
  "guessArtStyle lower =
     (if found lower ''photo'' \<or> found lower ''photoreal'' \<or> found lower ''realistic''
      then Photorealistic
      else if found lower ''anime'' \<or> found lower ''manga'' then Anime
      else if found lower ''watercolor'' then Watercolor
      else if found lower ''pixel'' then PixelArt
      else if found lower ''line art'' \<or> found lower ''sketch'' then LineArt
      else if found lower ''low poly'' \<or> found lower ''low-poly'' then LowPoly
      else if found lower ''concept art'' \<or> found lower ''key art'' then ConceptArt
      else if found lower ''painting'' \<or> found lower ''digital painting'' then DigitalPainting
      else Unspecified)"

definition guessLighting :: "string \<Rightarrow> VCLighting" where
  "guessLighting lower =
     (if found lower ''soft light'' \<or> found lower ''soft lighting'' then Soft
      else if found lower ''dramatic'' \<or> found lower ''cinematic light'' then Dramatic
      else if found lower ''studio'' \<or> found lower ''three-point'' then Studio
      else if found lower ''hard light'' then Hard
      else LightAuto)"

definition guessColorTone :: "string \<Rightarrow> VCColorTone" where
  "guessColorTone lower =
     (if found lower ''teal and orange'' \<or> found lower ''warm'' \<or> found lower ''sunset''
      then Warm
      else if found lower ''cool'' \<or> found lower ''blueish'' then Cool
      else if found lower ''pastel'' then Pastel
      else if found lower ''high contrast'' \<or> found lower ''noir'' then HighContrast
      else Neutral)"

definition guessCameraAngle :: "string \<Rightarrow> VCCameraAngle" where
  "guessCameraAngle lower =
     (if found lower ''top-down'' \<or> found lower ''top down'' \<or> found lower ''bird's-eye''
      then TopDown
      else if found lower ''close-up'' \<or> found lower ''close up''
              \<or> found lower ''portrait shot''
      then CloseUp
      else if found lower ''wide shot'' \<or> found lower ''wide angle'' then WideShot
      else if found lower ''low angle'' then LowAngle
      else if found lower ''high angle'' then HighAngle
      else if found lower ''isometric'' then Isometric
      else EyeLevel)"

definition guessComposition :: "string \<Rightarrow> VCCompositionRule" where
  "guessComposition lower =
     (if found lower ''rule of thirds'' then RuleOfThirds
      else if found lower ''centered'' \<or> found lower ''symmetrical'' \<or> found lower ''symmetry''
      then Centered
      else if found lower ''golden ratio'' then GoldenRatio
      else if found lower ''leading lines'' then LeadingLines
      else if found lower ''symmetric'' then Symmetric
      else RuleNone)"

text \<open>
  \<^verbatim>\<open>guessSubjectName\<close>: the tokenizer loop keeps the tokens pushed so far and the
  current token \<open>cur\<close>; a separator closes a non-empty \<open>cur\<close>.
\<close>

definition isSep :: "char \<Rightarrow> bool" where
  "isSep c = (c = chSP \<or> c = CHR '','' \<or> c = CHR ''.'' \<or> c = CHR ''!'' \<or> c = CHR ''?'')"

definition tokStep :: "string list \<times> string \<Rightarrow> char \<Rightarrow> string list \<times> string" where
  "tokStep st c =
     (case st of (tokens, cur) \<Rightarrow>
        if isSep c then (if cur \<noteq> [] then (tokens @ [cur], []) else (tokens, cur))
        else (tokens, cur @ [c]))"

definition splitTokens :: "string \<Rightarrow> string list" where
  "splitTokens lower =
     (case foldl tokStep ([], []) lower of
        (tokens, cur) \<Rightarrow> if cur \<noteq> [] then tokens @ [cur] else tokens)"

definition stopWords :: "string list" where
  "stopWords = [''a'', ''an'', ''the'', ''of'', ''in'', ''on'', ''with'', ''at'', ''to'', ''for'']"

text \<open>
  The backward scan \<^verbatim>\<open>for (i = size - 1; i >= 0; --i)\<close> returns the first token, from
  the end, that is no stop word; when every token is one, the last token.
\<close>

definition guessSubjectName :: "string \<Rightarrow> string" where
  "guessSubjectName prompt =
     (let tokens = splitTokens (toLowerASCII prompt)
      in if tokens = [] then ''subject''
         else (case List.find (\<lambda>tok. tok \<notin> set stopWords) (rev tokens) of
                 Some tok \<Rightarrow> tok
               | None \<Rightarrow> last tokens))"

definition guessEnvironment :: "string \<Rightarrow> string" where
  "guessEnvironment lower =
     (if found lower ''forest'' then ''forest''
      else if found lower ''city'' then ''city''
      else if found lower ''space'' \<or> found lower ''galaxy'' \<or> found lower ''nebula''
      then ''space''
      else if found lower ''beach'' \<or> found lower ''ocean'' \<or> found lower ''sea''
      then ''seaside''
      else '''')"

definition guessTimeOfDay :: "string \<Rightarrow> string" where
  "guessTimeOfDay lower =
     (if found lower ''sunset'' then ''sunset''
      else if found lower ''night'' then ''night''
      else if found lower ''dawn'' \<or> found lower ''sunrise'' then ''dawn''
      else '''')"

definition guessWeather :: "string \<Rightarrow> string" where
  "guessWeather lower =
     (if found lower ''rain'' then ''rainy''
      else if found lower ''fog'' \<or> found lower ''mist'' then ''foggy''
      else if found lower ''snow'' then ''snowy''
      else '''')"

text \<open>
  \<^verbatim>\<open>buildScenePlanFromPrompt\<close>: the exception of the sanitizer leaves the function
  before any field is set. The three background fields are the three \<^verbatim>\<open>if\<close> chains of
  the source, named here \<open>guessEnvironment\<close>, \<open>guessTimeOfDay\<close> and \<open>guessWeather\<close>.
\<close>

definition buildScenePlanFromPrompt ::
  "string \<Rightarrow> VCIGMode \<Rightarrow> VCSafetyProfile \<Rightarrow> VCQualityPreset \<Rightarrow> error + VCScenePlan" where
  "buildScenePlanFromPrompt rawPrompt igMode safetyP qualityP =
     (case sanitizePromptForVision rawPrompt of
        Inl e \<Rightarrow> Inl e
      | Inr core \<Rightarrow>
          let lower = toLowerASCII core;
              ang = guessCameraAngle lower
          in Inr \<lparr>
               corePrompt = core,
               primarySubject =
                 \<lparr> name = guessSubjectName core, attributes = '''', positionHint = ''center'' \<rparr>,
               secondarySubjects = [],
               background =
                 \<lparr> environment = guessEnvironment lower, timeOfDay = guessTimeOfDay lower,
                   weather = guessWeather lower \<rparr>,
               colorLighting =
                 \<lparr> colorTone = guessColorTone lower, lighting = guessLighting lower,
                   paletteHint = '''' \<rparr>,
               camera = \<lparr> angle = ang, focalLengthMM = 35, depthOfField = (ang = CloseUp) \<rparr>,
               composition =
                 \<lparr> rule = guessComposition lower, allowCropping = True,
                   centerMainSubject = True \<rparr>,
               artStyle =
                 \<lparr> style = guessArtStyle lower, brushDetail = BrushNormal, eraHint = '''' \<rparr>,
               negatives =
                 \<lparr> visualArtifacts = ''blurry, extra limbs, distorted faces, text artifacts'',
                   contentExclusions = ''no gore, no real-world logos'' \<rparr>,
               aspectRatio = guessAspectFromText lower,
               mode = igMode,
               safety = safetyP,
               quality = qualityP \<rparr>)"

subsection \<open>Canonical serializer\<close>

text \<open>
  \<^verbatim>\<open>jsonEscape\<close>: the \<^verbatim>\<open>switch\<close> on one character gives the text the loop appends
  to \<open>out\<close> for it; the default case drops a byte below 32 and copies any other.
\<close>

abbreviation chBS :: char where "chBS \<equiv> CHR 0x5C"
abbreviation chDQ :: char where "chDQ \<equiv> CHR 0x22"

definition jsonEscapeChar :: "char \<Rightarrow> string" where
  "jsonEscapeChar c =
     (if c = chDQ then [chBS, chDQ]
      else if c = chBS then [chBS, chBS]
      else if c = chNL then [chBS, CHR ''n'']
      else if c = chCR then [chBS, CHR ''r'']
      else if c = chTAB then [chBS, CHR ''t'']
      else if byte c < 32 then []
      else [c])"

definition jsonEscape :: "string \<Rightarrow> string" where
  "jsonEscape inp = foldl (\<lambda>out c. out @ jsonEscapeChar c) [] inp"

text \<open>The \<^verbatim>\<open>toString\<close> overloads, one per enumeration.\<close>

fun toString_AspectRatio :: "VCAspectRatio \<Rightarrow> string" where
  "toString_AspectRatio Ratio_1_1 = ''1:1''"
| "toString_AspectRatio Ratio_16_9 = ''16:9''"
| "toString_AspectRatio Ratio_9_16 = ''9:16''"
| "toString_AspectRatio Ratio_4_3 = ''4:3''"
| "toString_AspectRatio Ratio_3_4 = ''3:4''"
| "toString_AspectRatio Ratio_21_9 = ''21:9''"

fun toString_IGMode :: "VCIGMode \<Rightarrow> string" where
  "toString_IGMode TextToImage = ''text-to-image''"
| "toString_IGMode ImageToImage = ''image-to-image''"
| "toString_IGMode Inpaint = ''inpaint''"
| "toString_IGMode Outpaint = ''outpaint''"

fun toString_SafetyProfile :: "VCSafetyProfile \<Rightarrow> string" where
  "toString_SafetyProfile Safe = ''safe''"
| "toString_SafetyProfile AllowNSFW = ''allow-nsfw''"

fun toString_QualityPreset :: "VCQualityPreset \<Rightarrow> string" where
  "toString_QualityPreset Draft = ''draft''"
| "toString_QualityPreset Standard = ''standard''"
| "toString_QualityPreset High = ''high''"
| "toString_QualityPreset Ultra = ''ultra''"

fun toString_ColorTone :: "VCColorTone \<Rightarrow> string" where
  "toString_ColorTone Neutral = ''neutral''"
| "toString_ColorTone Warm = ''warm''"
| "toString_ColorTone Cool = ''cool''"
| "toString_ColorTone HighContrast = ''high-contrast''"
| "toString_ColorTone Pastel = ''pastel''"

fun toString_Lighting :: "VCLighting \<Rightarrow> string" where
  "toString_Lighting LightAuto = ''auto''"
| "toString_Lighting Soft = ''soft''"
| "toString_Lighting Hard = ''hard''"
| "toString_Lighting Dramatic = ''dramatic''"
| "toString_Lighting Studio = ''studio''"

fun toString_CameraAngle :: "VCCameraAngle \<Rightarrow> string" where
  "toString_CameraAngle EyeLevel = ''eye-level''"
| "toString_CameraAngle LowAngle = ''low-angle''"
| "toString_CameraAngle HighAngle = ''high-angle''"
| "toString_CameraAngle TopDown = ''top-down''"
| "toString_CameraAngle Isometric = ''isometric''"
| "toString_CameraAngle CloseUp = ''close-up''"
| "toString_CameraAngle WideShot = ''wide-shot''"

fun toString_CompositionRule :: "VCCompositionRule \<Rightarrow> string" where
  "toString_CompositionRule RuleNone = ''none''"
| "toString_CompositionRule RuleOfThirds = ''rule-of-thirds''"
| "toString_CompositionRule Centered = ''centered''"
| "toString_CompositionRule GoldenRatio = ''golden-ratio''"
| "toString_CompositionRule Symmetric = ''symmetric''"
| "toString_CompositionRule LeadingLines = ''leading-lines''"

fun toString_ArtStyle :: "VCArtStyle \<Rightarrow> string" where
  "toString_ArtStyle Unspecified = ''unspecified''"
| "toString_ArtStyle Photorealistic = ''photorealistic''"
| "toString_ArtStyle DigitalPainting = ''digital-painting''"
| "toString_ArtStyle Watercolor = ''watercolor''"
| "toString_ArtStyle Anime = ''anime''"
| "toString_ArtStyle LineArt = ''line-art''"
| "toString_ArtStyle LowPoly = ''low-poly''"
| "toString_ArtStyle PixelArt = ''pixel-art''"
| "toString_ArtStyle ConceptArt = ''concept-art''"

fun toString_BrushDetail :: "VCBrushDetail \<Rightarrow> string" where
  "toString_BrushDetail BrushAuto = ''auto''"
| "toString_BrushDetail BrushMinimal = ''minimal''"
| "toString_BrushDetail BrushNormal = ''normal''"
| "toString_BrushDetail BrushHigh = ''high''"
| "toString_BrushDetail BrushHyper = ''hyper''"

definition boolText :: "bool \<Rightarrow> string" where
  "boolText b = (if b then ''true'' else ''false'')"

text \<open>
  The loop over \<^verbatim>\<open>secondarySubjects\<close>: one object per element, and a comma after each
  element but the last (\<^verbatim>\<open>i + 1 < size\<close>).
\<close>

fun secondaryJSON :: "VCSubjectDescriptor list \<Rightarrow> string" where
  "secondaryJSON [] = []"
| "secondaryJSON (s # rest) =
     ''{''
     @ ''\"name\":\"'' @ jsonEscape (name s) @ ''\",''
     @ ''\"attributes\":\"'' @ jsonEscape (attributes s) @ ''\",''
     @ ''\"position_hint\":\"'' @ jsonEscape (positionHint s) @ ''\"''
     @ ''}''
     @ (if rest \<noteq> [] then '','' else [])
     @ secondaryJSON rest"

text \<open>
  \<^verbatim>\<open>serializeScenePlanToJSON\<close>: the appends to \<open>j\<close>, in order. \<^verbatim>\<open>std::to_string\<close> of the
  \<^verbatim>\<open>float\<close> belongs to the platform's library; it is the parameter \<open>to_string\<close>.
\<close>

definition serializeScenePlanToJSON :: "(real \<Rightarrow> string) \<Rightarrow> VCScenePlan \<Rightarrow> string" where
  "serializeScenePlanToJSON to_string p =
     ''{''
     @ ''\"core_prompt\":\"'' @ jsonEscape (corePrompt p) @ ''\",''
     @ ''\"mode\":\"'' @ toString_IGMode (mode p) @ ''\",''
     @ ''\"safety_profile\":\"'' @ toString_SafetyProfile (safety p) @ ''\",''
     @ ''\"quality_preset\":\"'' @ toString_QualityPreset (quality p) @ ''\",''
     @ ''\"aspect_ratio\":\"'' @ toString_AspectRatio (aspectRatio p) @ ''\",''
     @ ''\"primary_subject\":{''
     @ ''\"name\":\"'' @ jsonEscape (name (primarySubject p)) @ ''\",''
     @ ''\"attributes\":\"'' @ jsonEscape (attributes (primarySubject p)) @ ''\",''
     @ ''\"position_hint\":\"'' @ jsonEscape (positionHint (primarySubject p)) @ ''\"''
     @ ''},''
     @ ''\"secondary_subjects\":[''
     @ secondaryJSON (secondarySubjects p)
     @ ''],''
     @ ''\"background\":{''
     @ ''\"environment\":\"'' @ jsonEscape (environment (background p)) @ ''\",''
     @ ''\"time_of_day\":\"'' @ jsonEscape (timeOfDay (background p)) @ ''\",''
     @ ''\"weather\":\"'' @ jsonEscape (weather (background p)) @ ''\"''
     @ ''},''
     @ ''\"color_lighting\":{''
     @ ''\"color_tone\":\"'' @ toString_ColorTone (colorTone (colorLighting p)) @ ''\",''
     @ ''\"lighting\":\"'' @ toString_Lighting (lighting (colorLighting p)) @ ''\",''
     @ ''\"palette_hint\":\"'' @ jsonEscape (paletteHint (colorLighting p)) @ ''\"''
     @ ''},''
     @ ''\"camera\":{''
     @ ''\"angle\":\"'' @ toString_CameraAngle (angle (camera p)) @ ''\",''
     @ ''\"focal_length_mm\":'' @ to_string (focalLengthMM (camera p)) @ '',''
     @ ''\"depth_of_field\":'' @ boolText (depthOfField (camera p))
     @ ''},''
     @ ''\"composition\":{''
     @ ''\"rule\":\"'' @ toString_CompositionRule (rule (composition p)) @ ''\",''
     @ ''\"allow_cropping\":'' @ boolText (allowCropping (composition p)) @ '',''
     @ ''\"center_main_subject\":'' @ boolText (centerMainSubject (composition p))
     @ ''},''
     @ ''\"art_style\":{''
     @ ''\"style\":\"'' @ toString_ArtStyle (style (artStyle p)) @ ''\",''
     @ ''\"brush_detail\":\"'' @ toString_BrushDetail (brushDetail (artStyle p)) @ ''\",''
     @ ''\"era_hint\":\"'' @ jsonEscape (eraHint (artStyle p)) @ ''\"''
     @ ''},''
     @ ''\"negative_constraints\":{''
     @ ''\"visual_artifacts\":\"'' @ jsonEscape (visualArtifacts (negatives p)) @ ''\",''
     @ ''\"content_exclusions\":\"'' @ jsonEscape (contentExclusions (negatives p)) @ ''\"''
     @ ''}''
     @ ''}''"

record VCSemanticIGResult =
  scene :: VCScenePlan
  jsonControl :: string

text \<open>\<^verbatim>\<open>BuildSemanticIGSpec\<close>, the entry point; an exception of the builder passes through.\<close>

definition BuildSemanticIGSpec ::
  "(real \<Rightarrow> string) \<Rightarrow> string \<Rightarrow> VCIGMode \<Rightarrow> VCSafetyProfile \<Rightarrow> VCQualityPreset
    \<Rightarrow> error + VCSemanticIGResult" where
  "BuildSemanticIGSpec to_string userPrompt igMode safetyP qualityP =
     (case buildScenePlanFromPrompt userPrompt igMode safetyP qualityP of
        Inl e \<Rightarrow> Inl e
      | Inr plan \<Rightarrow>
          Inr \<lparr> scene = plan, jsonControl = serializeScenePlanToJSON to_string plan \<rparr>)"

section \<open>Notions for the statements\<close>

subsection \<open>Collapsed whitespace\<close>

text \<open>
  The loop of \<^verbatim>\<open>collapseWhitespace\<close> read forwards: \<open>cwRun space cs\<close> is what the loop
  appends to its output for the rest \<open>cs\<close> of the input when the flag is \<open>space\<close>.
\<close>

fun cwRun :: "bool \<Rightarrow> string \<Rightarrow> string" where
  "cwRun space [] = []"
| "cwRun space (c # cs) =
     (if isWs c then (if \<not> space then chSP # cwRun True cs else cwRun True cs)
      else c # cwRun False cs)"

definition trimSpace :: "string \<Rightarrow> string" where
  "trimSpace out = (if out \<noteq> [] \<and> last out = chSP then butlast out else out)"

text \<open>
  A tidy string holds no tab, newline or carriage return and no two spaces in a row; the
  flag says that a space stood just before it.
\<close>

fun tidy :: "bool \<Rightarrow> string \<Rightarrow> bool" where
  "tidy b [] = True"
| "tidy b (c # cs) = (if c = chSP then \<not> b \<and> tidy True cs else \<not> isWs c \<and> tidy False cs)"

subsection \<open>Matches\<close>

text \<open>
  A hit \<open>(t, p)\<close> spans the positions \<open>p, \<dots>, p + length t - 1\<close>. A position is covered
  when some hit spans it. Two spans are disjoint when one ends before the other begins.
\<close>

definition inSpan :: "string \<times> nat \<Rightarrow> nat \<Rightarrow> bool" where
  "inSpan h j = (snd h \<le> j \<and> j < snd h + length (fst h))"

definition covered :: "(string \<times> nat) list \<Rightarrow> nat \<Rightarrow> bool" where
  "covered hits j = list_ex (\<lambda>h. inSpan h j) hits"

definition spansDisjoint :: "string \<times> nat \<Rightarrow> string \<times> nat \<Rightarrow> bool" where
  "spansDisjoint h1 h2 =
     (snd h1 + length (fst h1) \<le> snd h2 \<or> snd h2 + length (fst h2) \<le> snd h1)"

text \<open>
  The state of \<^verbatim>\<open>stripNSFWMarkers\<close> on the input \<open>inp\<close>: both buffers keep the length of
  the input; a covered position holds \<open>*\<close> in both, any other position holds the input's
  byte in \<open>out\<close> and its lowercase in \<open>lower\<close>; every hit is an occurrence of its token in
  the lowercased input, and no two hits overlap.
\<close>

definition maskInv :: "string \<Rightarrow> string \<Rightarrow> string \<Rightarrow> (string \<times> nat) list \<Rightarrow> bool" where
  "maskInv inp lower out hits =
     (length lower = length inp \<and> length out = length inp
      \<and> (\<forall>j<length inp. lower ! j = (if covered hits j then chSTAR else lowerChar (inp ! j)))
      \<and> (\<forall>j<length inp. out ! j = (if covered hits j then chSTAR else inp ! j))
      \<and> (\<forall>h\<in>set hits. fst h \<noteq> [] \<and> snd h + length (fst h) \<le> length inp
            \<and> prefix (fst h) (drop (snd h) (toLowerASCII inp)))
      \<and> sorted_wrt spansDisjoint hits)"

text \<open>
  The rank of a token is its index in the block list. A hit comes before another in the
  order of the loops when its token has a smaller rank, or the token is the same and the
  second match starts at or after the end of the first.
\<close>

definition blockRank :: "string \<Rightarrow> nat" where
  "blockRank t = length (takeWhile (\<lambda>x. x \<noteq> t) kBlockList)"

definition hitOrder :: "string \<times> nat \<Rightarrow> string \<times> nat \<Rightarrow> bool" where
  "hitOrder h1 h2 =
     (blockRank (fst h1) < blockRank (fst h2)
      \<or> (fst h1 = fst h2 \<and> snd h1 + length (fst h1) \<le> snd h2))"

text \<open>
  Case-insensitive occurrence, stated without the code's lowercasing: two bytes are the
  same letter when they are equal or are the upper-case and the lower-case form of one
  ASCII letter; a token occurs in a string ignoring case when some contiguous substring
  of the string matches it letter for letter.
\<close>

definition asciiUpper :: string where
  "asciiUpper = ''ABCDEFGHIJKLMNOPQRSTUVWXYZ''"

definition asciiLower :: string where
  "asciiLower = ''abcdefghijklmnopqrstuvwxyz''"

definition sameLetter :: "char \<Rightarrow> char \<Rightarrow> bool" where
  "sameLetter a b =
     (a = b \<or> (a, b) \<in> set (zip asciiUpper asciiLower)
      \<or> (b, a) \<in> set (zip asciiUpper asciiLower))"

definition occursIgnoringCase :: "string \<Rightarrow> string \<Rightarrow> bool" where
  "occursIgnoringCase t s = (\<exists>w. sublist w s \<and> list_all2 sameLetter w t)"

subsection \<open>The specification's JSON layout\<close>

text \<open>
  The definitions of this subsection follow the words of the specification, not the
  code: a JSON value, its compact rendering, the escaping table of section 4.4 and the
  object that section prescribes for a scene plan. They are compared below with
  \<^verbatim>\<open>serializeScenePlanToJSON\<close> and \<^verbatim>\<open>jsonEscape\<close>.
\<close>

datatype jvalue =
  JStr string | JEnum string | JBool bool | JNum string | JObj "jfield list" | JArr "jvalue list"
and jfield = Field string jvalue

text \<open>
  The specification's escaping: backslash, double quote, newline, carriage return and
  tab get a two-byte escape; any other byte below \<open>0x20\<close> is dropped; every other byte
  passes through.
\<close>

definition spec_escapeByte :: "char \<Rightarrow> string" where
  "spec_escapeByte c =
     (if c = chBS then [chBS, chBS]
      else if c = chDQ then [chBS, chDQ]
      else if c = chNL then [chBS, CHR ''n'']
      else if c = chCR then [chBS, CHR ''r'']
      else if c = chTAB then [chBS, CHR ''t'']
      else if byte c < 0x20 then []
      else [c])"

definition spec_escape :: "string \<Rightarrow> string" where
  "spec_escape s = concat (map spec_escapeByte s)"

fun joinComma :: "string list \<Rightarrow> string" where
  "joinComma [] = []"
| "joinComma [x] = x"
| "joinComma (x # y # ys) = x @ '','' @ joinComma (y # ys)"

text \<open>
  The compact rendering of a JSON value: a string is escaped and quoted, an enumeration
  token is quoted as it is, a boolean is the token \<open>true\<close> or \<open>false\<close>, a number is the
  text it was given, an object and an array list their members in order, separated by
  commas.
\<close>

fun render :: "jvalue \<Rightarrow> string" and renderField :: "jfield \<Rightarrow> string" where
  "render (JStr s) = ''\"'' @ spec_escape s @ ''\"''"
| "render (JEnum s) = ''\"'' @ s @ ''\"''"
| "render (JBool b) = (if b then ''true'' else ''false'')"
| "render (JNum s) = s"
| "render (JObj fs) = ''{'' @ joinComma (map renderField fs) @ ''}''"
| "render (JArr vs) = ''['' @ joinComma (map render vs) @ '']''"
| "renderField (Field k v) = ''\"'' @ k @ ''\":'' @ render v"

text \<open>The keys of an object, in order, each with the keys of its value when that is an object.\<close>

fun objectKeys :: "jvalue \<Rightarrow> string list" where
  "objectKeys (JObj fs) = map (\<lambda>f. case f of Field k v \<Rightarrow> k) fs"
| "objectKeys v = []"

fun keyOrder :: "jvalue \<Rightarrow> (string \<times> string list) list" where
  "keyOrder (JObj fs) = map (\<lambda>f. case f of Field k v \<Rightarrow> (k, objectKeys v)) fs"
| "keyOrder v = []"

text \<open>
  The specification's string table for the enumerations, written from its sections 3, 4.2,
  4.4 and 6 and not from the code: the tokens of mode, safety profile and quality preset
  are listed in sections 3 and 6; the facets of section 4.2 are named there by their
  tokens (with the defaults \<open>unspecified\<close>, \<open>auto\<close>, \<open>neutral\<close>, \<open>eye-level\<close> and
  \<open>none\<close>); an aspect ratio \<open>Ratio_w_h\<close> is the token \<open>w:h\<close> (section 8 has \<open>16:9\<close> and
  \<open>9:16\<close>); every other enumerator is its name in lowercase with hyphens between the
  words (section 4.4: \<open>RuleOfThirds\<close> is \<open>rule-of-thirds\<close>, \<open>TopDown\<close> is \<open>top-down\<close>).
\<close>

fun spec_token_IGMode :: "VCIGMode \<Rightarrow> string" where
  "spec_token_IGMode TextToImage = ''text-to-image''"
| "spec_token_IGMode ImageToImage = ''image-to-image''"
| "spec_token_IGMode Inpaint = ''inpaint''"
| "spec_token_IGMode Outpaint = ''outpaint''"

fun spec_token_SafetyProfile :: "VCSafetyProfile \<Rightarrow> string" where
  "spec_token_SafetyProfile Safe = ''safe''"
| "spec_token_SafetyProfile AllowNSFW = ''allow-nsfw''"

fun spec_token_QualityPreset :: "VCQualityPreset \<Rightarrow> string" where
  "spec_token_QualityPreset Draft = ''draft''"
| "spec_token_QualityPreset Standard = ''standard''"
| "spec_token_QualityPreset High = ''high''"
| "spec_token_QualityPreset Ultra = ''ultra''"

fun spec_token_AspectRatio :: "VCAspectRatio \<Rightarrow> string" where
  "spec_token_AspectRatio Ratio_1_1 = ''1:1''"
| "spec_token_AspectRatio Ratio_16_9 = ''16:9''"
| "spec_token_AspectRatio Ratio_9_16 = ''9:16''"
| "spec_token_AspectRatio Ratio_4_3 = ''4:3''"
| "spec_token_AspectRatio Ratio_3_4 = ''3:4''"
| "spec_token_AspectRatio Ratio_21_9 = ''21:9''"

fun spec_token_ColorTone :: "VCColorTone \<Rightarrow> string" where
  "spec_token_ColorTone Warm = ''warm''"
| "spec_token_ColorTone Cool = ''cool''"
| "spec_token_ColorTone Pastel = ''pastel''"
| "spec_token_ColorTone HighContrast = ''high-contrast''"
| "spec_token_ColorTone Neutral = ''neutral''"

fun spec_token_Lighting :: "VCLighting \<Rightarrow> string" where
  "spec_token_Lighting Soft = ''soft''"
| "spec_token_Lighting Dramatic = ''dramatic''"
| "spec_token_Lighting Studio = ''studio''"
| "spec_token_Lighting Hard = ''hard''"
| "spec_token_Lighting LightAuto = ''auto''"

fun spec_token_CameraAngle :: "VCCameraAngle \<Rightarrow> string" where
  "spec_token_CameraAngle TopDown = ''top-down''"
| "spec_token_CameraAngle CloseUp = ''close-up''"
| "spec_token_CameraAngle WideShot = ''wide-shot''"
| "spec_token_CameraAngle LowAngle = ''low-angle''"
| "spec_token_CameraAngle HighAngle = ''high-angle''"
| "spec_token_CameraAngle Isometric = ''isometric''"
| "spec_token_CameraAngle EyeLevel = ''eye-level''"

fun spec_token_CompositionRule :: "VCCompositionRule \<Rightarrow> string" where
  "spec_token_CompositionRule RuleOfThirds = ''rule-of-thirds''"
| "spec_token_CompositionRule Centered = ''centered''"
| "spec_token_CompositionRule GoldenRatio = ''golden-ratio''"
| "spec_token_CompositionRule LeadingLines = ''leading-lines''"
| "spec_token_CompositionRule Symmetric = ''symmetric''"
| "spec_token_CompositionRule RuleNone = ''none''"

fun spec_token_ArtStyle :: "VCArtStyle \<Rightarrow> string" where
  "spec_token_ArtStyle Photorealistic = ''photorealistic''"
| "spec_token_ArtStyle Anime = ''anime''"
| "spec_token_ArtStyle Watercolor = ''watercolor''"
| "spec_token_ArtStyle PixelArt = ''pixel-art''"
| "spec_token_ArtStyle LineArt = ''line-art''"
| "spec_token_ArtStyle LowPoly = ''low-poly''"
| "spec_token_ArtStyle ConceptArt = ''concept-art''"
| "spec_token_ArtStyle DigitalPainting = ''digital-painting''"
| "spec_token_ArtStyle Unspecified = ''unspecified''"

fun spec_token_BrushDetail :: "VCBrushDetail \<Rightarrow> string" where
  "spec_token_BrushDetail BrushAuto = ''auto''"
| "spec_token_BrushDetail BrushMinimal = ''minimal''"
| "spec_token_BrushDetail BrushNormal = ''normal''"
| "spec_token_BrushDetail BrushHigh = ''high''"
| "spec_token_BrushDetail BrushHyper = ''hyper''"

definition spec_subjectJSON :: "VCSubjectDescriptor \<Rightarrow> jvalue" where
  "spec_subjectJSON s =
     JObj [Field ''name'' (JStr (name s)),
           Field ''attributes'' (JStr (attributes s)),
           Field ''position_hint'' (JStr (positionHint s))]"

definition spec_planJSON :: "(real \<Rightarrow> string) \<Rightarrow> VCScenePlan \<Rightarrow> jvalue" where
  "spec_planJSON to_string p =
     JObj
      [Field ''core_prompt'' (JStr (corePrompt p)),
       Field ''mode'' (JEnum (spec_token_IGMode (mode p))),
       Field ''safety_profile'' (JEnum (spec_token_SafetyProfile (safety p))),
       Field ''quality_preset'' (JEnum (spec_token_QualityPreset (quality p))),
       Field ''aspect_ratio'' (JEnum (spec_token_AspectRatio (aspectRatio p))),
       Field ''primary_subject'' (spec_subjectJSON (primarySubject p)),
       Field ''secondary_subjects'' (JArr (map spec_subjectJSON (secondarySubjects p))),
       Field ''background''
         (JObj [Field ''environment'' (JStr (environment (background p))),
                Field ''time_of_day'' (JStr (timeOfDay (background p))),
                Field ''weather'' (JStr (weather (background p)))]),
       Field ''color_lighting''
         (JObj [Field ''color_tone'' (JEnum (spec_token_ColorTone (colorTone (colorLighting p)))),
                Field ''lighting'' (JEnum (spec_token_Lighting (lighting (colorLighting p)))),
                Field ''palette_hint'' (JStr (paletteHint (colorLighting p)))]),
       Field ''camera''
         (JObj [Field ''angle'' (JEnum (spec_token_CameraAngle (angle (camera p)))),
                Field ''focal_length_mm'' (JNum (to_string (focalLengthMM (camera p)))),
                Field ''depth_of_field'' (JBool (depthOfField (camera p)))]),
       Field ''composition''
         (JObj [Field ''rule'' (JEnum (spec_token_CompositionRule (rule (composition p)))),
                Field ''allow_cropping'' (JBool (allowCropping (composition p))),
                Field ''center_main_subject'' (JBool (centerMainSubject (composition p)))]),
       Field ''art_style''
         (JObj [Field ''style'' (JEnum (spec_token_ArtStyle (style (artStyle p)))),
                Field ''brush_detail'' (JEnum (spec_token_BrushDetail (brushDetail (artStyle p)))),
                Field ''era_hint'' (JStr (eraHint (artStyle p)))]),
       Field ''negative_constraints''
         (JObj [Field ''visual_artifacts'' (JStr (visualArtifacts (negatives p))),
                Field ''content_exclusions'' (JStr (contentExclusions (negatives p)))])]"

text \<open>An enumeration token: lowercase letters and hyphens, and digits and a colon in a ratio.\<close>

definition enumToken :: "string \<Rightarrow> bool" where
  "enumToken s = (s \<noteq> [] \<and> list_all (\<lambda>c. c \<in> set ''abcdefghijklmnopqrstuvwxyz-0123456789:'') s)"

subsection \<open>The scenarios\<close>

text \<open>
  Scenario A is the prompt \<open>A cinematic portrait, 16:9, soft lighting, rule of thirds\<close>,
  scenario D the prompt
  \<open>close-up of a dragon in a foggy forest at night, anime style, 9:16\<close>.
\<close>

definition scenarioA :: string where
  "scenarioA = ''A cinematic portrait, 16:9, soft lighting, rule of thirds''"

definition scenarioD :: string where
  "scenarioD = ''close-up of a dragon in a foggy forest at night, anime style, 9:16''"

section \<open>Whitespace collapsing and control stripping\<close>

lemma isWs_space [simp]: "isWs chSP"
  by (simp add: isWs_def)

lemma foldl_cwStep:
  "fst (foldl cwStep (out, space) cs) = out @ cwRun space cs"
  by (induction cs arbitrary: out space) (simp_all add: cwStep_def)

lemma collapseWhitespace_cwRun:
  "collapseWhitespace inp = trimSpace (cwRun False inp)"
  using foldl_cwStep [of "[]" False inp]
  by (simp add: collapseWhitespace_def trimSpace_def Let_def)

lemma tidy_cwRun: "tidy b (cwRun b cs)"
proof (induction cs arbitrary: b)
  case Nil
  show ?case by simp
next
  case (Cons c cs)
  show ?case
  proof (cases "isWs c")
    case True
    then show ?thesis using Cons.IH [of True] by (cases b) simp_all
  next
    case False
    then have "c \<noteq> chSP" by (auto simp: isWs_def)
    with False show ?thesis using Cons.IH [of False] by simp
  qed
qed

lemma cwRun_tidy: "tidy b cs \<Longrightarrow> cwRun b cs = cs"
  by (induction cs arbitrary: b) (auto split: if_splits)

lemma tidy_butlast: "tidy b cs \<Longrightarrow> tidy b (butlast cs)"
  by (induction cs arbitrary: b) (auto split: if_splits)

lemma tidy_last_space:
  "tidy b cs \<Longrightarrow> cs \<noteq> [] \<Longrightarrow> last cs = chSP \<Longrightarrow>
   butlast cs = [] \<or> last (butlast cs) \<noteq> chSP"
proof (induction cs arbitrary: b)
  case Nil
  then show ?case by simp
next
  case (Cons c cs)
  show ?case
  proof (cases cs)
    case Nil
    then show ?thesis by simp
  next
    case (Cons d ds)
    note cs = this
    show ?thesis
    proof (cases ds)
      case Nil
      with cs Cons.prems show ?thesis by (auto split: if_splits)
    next
      case (Cons e es)
      have t: "tidy (c = chSP) cs" using Cons.prems(1) by (auto split: if_splits)
      have "last cs = chSP" using Cons.prems(3) cs by simp
      from Cons.IH [OF t _ this] cs Cons show ?thesis by auto
    qed
  qed
qed

lemma tidy_trimSpace: "tidy b cs \<Longrightarrow> tidy b (trimSpace cs)"
  by (simp add: trimSpace_def tidy_butlast)

lemma trimSpace_twice: "tidy b cs \<Longrightarrow> trimSpace (trimSpace cs) = trimSpace cs"
  using tidy_last_space [of b cs] by (auto simp: trimSpace_def)

text \<open>
  C9: \<^verbatim>\<open>collapseWhitespace\<close> and \<^verbatim>\<open>stripControl\<close> are idempotent, for every string.
\<close>

theorem collapse_and_strip_idempotent:
  "collapseWhitespace (collapseWhitespace s) = collapseWhitespace s
   \<and> stripControl (stripControl s) = stripControl s"
proof
  have t: "tidy False (cwRun False s)" by (rule tidy_cwRun)
  then have "tidy False (trimSpace (cwRun False s))" by (rule tidy_trimSpace)
  then have "cwRun False (trimSpace (cwRun False s)) = trimSpace (cwRun False s)"
    by (rule cwRun_tidy)
  then show "collapseWhitespace (collapseWhitespace s) = collapseWhitespace s"
    using trimSpace_twice [OF t] by (simp add: collapseWhitespace_cwRun)
next
  show "stripControl (stripControl s) = stripControl s"
    by (simp add: stripControl_def)
qed

section \<open>Searching and masking\<close>

subsection \<open>What \<open>str_find\<close> returns\<close>

lemma prefix_drop_nth:
  "prefix t (drop p s) \<longleftrightarrow>
     t = [] \<or> (p + length t \<le> length s \<and> (\<forall>k<length t. s ! (p + k) = t ! k))"
proof (cases "t = []")
  case True
  then show ?thesis by simp
next
  case False
  have "prefix t (drop p s) \<longleftrightarrow> take (length t) (drop p s) = t"
    by (metis append_eq_conv_conj prefix_def take_is_prefix)
  also have "\<dots> \<longleftrightarrow> p + length t \<le> length s \<and> (\<forall>k<length t. s ! (p + k) = t ! k)"
  proof
    assume eq: "take (length t) (drop p s) = t"
    then have "length (take (length t) (drop p s)) = length t" by simp
    then have len: "p + length t \<le> length s" using False
      by (cases t) (auto simp: min_def split: if_splits)
    have "\<forall>k<length t. s ! (p + k) = t ! k"
    proof (intro allI impI)
      fix k assume k: "k < length t"
      have "t ! k = take (length t) (drop p s) ! k" using eq by simp
      also have "\<dots> = s ! (p + k)" using k len by simp
      finally show "s ! (p + k) = t ! k" by simp
    qed
    with len show "p + length t \<le> length s \<and> (\<forall>k<length t. s ! (p + k) = t ! k)" by simp
  next
    assume h: "p + length t \<le> length s \<and> (\<forall>k<length t. s ! (p + k) = t ! k)"
    then have len: "p + length t \<le> length s" and nth: "\<forall>k<length t. s ! (p + k) = t ! k"
      by simp_all
    show "take (length t) (drop p s) = t"
    proof (rule nth_equalityI)
      show "length (take (length t) (drop p s)) = length t" using len by simp
    next
      fix i assume "i < length (take (length t) (drop p s))"
      then have "i < length t" by simp
      then show "take (length t) (drop p s) ! i = t ! i" using nth len by simp
    qed
  qed
  finally show ?thesis using False by simp
qed

lemma findIn_SomeD:
  "findIn t xs i = Some p \<Longrightarrow>
     i \<le> p \<and> prefix t (drop (p - i) xs) \<and> (\<forall>j<p - i. \<not> prefix t (drop j xs))"
proof (induction xs arbitrary: i)
  case Nil
  then show ?case by (simp split: if_splits)
next
  case (Cons c cs)
  show ?case
  proof (cases "prefix t (c # cs)")
    case True
    then show ?thesis using Cons.prems by simp
  next
    case False
    then have r: "findIn t cs (Suc i) = Some p" using Cons.prems by simp
    from Cons.IH [OF r] have ip: "Suc i \<le> p" and pre: "prefix t (drop (p - Suc i) cs)"
      and no: "\<forall>j<p - Suc i. \<not> prefix t (drop j cs)" by simp_all
    from ip have d: "p - i = Suc (p - Suc i)" by simp
    have "\<forall>j<p - i. \<not> prefix t (drop j (c # cs))"
    proof (intro allI impI)
      fix j assume j: "j < p - i"
      show "\<not> prefix t (drop j (c # cs))"
      proof (cases j)
        case 0
        then show ?thesis using False by simp
      next
        case (Suc j')
        then have "j' < p - Suc i" using j d by simp
        with no Suc show ?thesis by simp
      qed
    qed
    with ip pre d show ?thesis by simp
  qed
qed

lemma findIn_NoneD: "findIn t xs i = None \<Longrightarrow> \<not> prefix t (drop j xs)"
proof (induction xs arbitrary: i j)
  case Nil
  then show ?case by (simp split: if_splits)
next
  case (Cons c cs)
  from Cons.prems have np: "\<not> prefix t (c # cs)" and r: "findIn t cs (Suc i) = None"
    by (simp_all split: if_splits)
  show ?case
  proof (cases j)
    case 0
    then show ?thesis using np by simp
  next
    case (Suc j')
    then show ?thesis using Cons.IH [OF r, of j'] by simp
  qed
qed

lemma str_find_SomeD:
  assumes "str_find s t pos = Some p"
  shows "pos \<le> p" and "p + length t \<le> length s" and "prefix t (drop p s)"
    and "\<And>j. pos \<le> j \<Longrightarrow> j < p \<Longrightarrow> \<not> prefix t (drop j s)"
proof -
  from assms have le: "pos \<le> length s" and f: "findIn t (drop pos s) pos = Some p"
    by (simp_all add: str_find_def split: if_splits)
  from findIn_SomeD [OF f] have pp: "pos \<le> p"
    and pre: "prefix t (drop (p - pos) (drop pos s))"
    and no: "\<forall>j<p - pos. \<not> prefix t (drop j (drop pos s))" by blast+
  show "pos \<le> p" by (rule pp)
  show "p + length t \<le> length s" using str_find_bounds [OF assms] by simp
  show "prefix t (drop p s)" using pre pp by simp
  fix j assume j: "pos \<le> j" "j < p"
  then have "j - pos < p - pos" by simp
  with no have "\<not> prefix t (drop (j - pos) (drop pos s))" by simp
  then show "\<not> prefix t (drop j s)" using j by simp
qed

lemma str_find_NoneD:
  assumes "str_find s t pos = None" and "t \<noteq> []" and "pos \<le> j"
  shows "\<not> prefix t (drop j s)"
proof (cases "length s < pos")
  case True
  then have "drop j s = []" using assms(3) by simp
  then show ?thesis using assms(2) by simp
next
  case False
  then have "findIn t (drop pos s) pos = None" using assms(1) by (simp add: str_find_def)
  from findIn_NoneD [OF this, of "j - pos"] show ?thesis using assms(3) by simp
qed

text \<open>
  \<^verbatim>\<open>find\<close> from position 0 succeeds exactly when the token is a contiguous substring.
\<close>

lemma sublist_iff_prefix_drop: "sublist t s \<longleftrightarrow> (\<exists>j. prefix t (drop j s))"
proof
  assume "sublist t s"
  then obtain ps ss where "s = ps @ t @ ss" by (auto simp: sublist_def)
  then have "prefix t (drop (length ps) s)" by simp
  then show "\<exists>j. prefix t (drop j s)" ..
next
  assume "\<exists>j. prefix t (drop j s)"
  then obtain j where "prefix t (drop j s)" ..
  then have "sublist t (drop j s)" by (rule prefix_imp_sublist)
  then show "sublist t s" using sublist_drop sublist_order.order_trans by blast
qed

lemma found_iff_sublist: "found s t \<longleftrightarrow> sublist t s"
proof (cases "t = []")
  case True
  then show ?thesis by (cases s) (simp_all add: found_def str_find_def)
next
  case False
  show ?thesis
  proof
    assume "found s t"
    then obtain p where "str_find s t 0 = Some p" by (auto simp: found_def)
    from str_find_SomeD(3) [OF this] show "sublist t s"
      by (auto simp: sublist_iff_prefix_drop)
  next
    assume "sublist t s"
    then obtain j where j: "prefix t (drop j s)" by (auto simp: sublist_iff_prefix_drop)
    show "found s t"
    proof (rule ccontr)
      assume "\<not> found s t"
      then have "str_find s t 0 = None" by (simp add: found_def)
      from str_find_NoneD [OF this False, of j] j show False by simp
    qed
  qed
qed

subsection \<open>What \<open>maskSpan\<close> writes\<close>

lemma maskSpan_fst_nth:
  "j < length out \<Longrightarrow>
   fst (maskSpan n pos i out lower) ! j = (if pos + i \<le> j \<and> j < pos + n then chSTAR else out ! j)"
proof (induction n pos i out lower rule: maskSpan.induct)
  case (1 n pos i out lower)
  show ?case
  proof (cases "i < n \<and> pos + i < length out")
    case True
    with 1 show ?thesis
      by (subst maskSpan.simps) (auto simp: nth_list_update)
  next
    case False
    with 1 show ?thesis by (subst maskSpan.simps) auto
  qed
qed

lemma maskSpan_snd_nth:
  "length lower = length out \<Longrightarrow> j < length lower \<Longrightarrow>
   snd (maskSpan n pos i out lower) ! j
     = (if pos + i \<le> j \<and> j < pos + n then chSTAR else lower ! j)"
proof (induction n pos i out lower rule: maskSpan.induct)
  case (1 n pos i out lower)
  show ?case
  proof (cases "i < n \<and> pos + i < length out")
    case True
    with 1 show ?thesis
      by (subst maskSpan.simps) (auto simp: nth_list_update)
  next
    case False
    with 1 show ?thesis by (subst maskSpan.simps) auto
  qed
qed

text \<open>A loop rule for \<open>maskLoop\<close>: an invariant of the steps holds when the loop ends.\<close>

lemma maskLoop_rule:
  assumes ne: "t \<noteq> []"
    and step: "\<And>lower out hits pos p out' lower'.
        P lower out hits pos \<Longrightarrow> str_find lower t pos = Some p \<Longrightarrow>
        maskSpan (length t) p 0 out lower = (out', lower') \<Longrightarrow>
        P lower' out' (hits @ [(t, p)]) (p + length t)"
    and stop: "\<And>lower out hits pos.
        P lower out hits pos \<Longrightarrow> str_find lower t pos = None \<Longrightarrow> Q lower out hits"
    and init: "P lower out hits pos"
  shows "case maskLoop t lower out hits pos of (l, out', h) \<Rightarrow> Q l out' h"
  using assms
proof (induction t lower out hits pos rule: maskLoop.induct)
  case (1 t lower out hits pos)
  note ne = "1.prems"(1) and step = "1.prems"(2) and stop = "1.prems"(3)
    and init = "1.prems"(4)
  show ?case
  proof (cases "str_find lower t pos")
    case None
    with stop [OF init None] show ?thesis
      by (subst maskLoop.simps) simp
  next
    case (Some p)
    obtain out' lower' where m: "maskSpan (length t) p 0 out lower = (out', lower')"
      by (cases "maskSpan (length t) p 0 out lower")
    have P': "P lower' out' (hits @ [(t, p)]) (p + length t)"
      by (rule step [OF init Some m])
    have "case maskLoop t lower' out' (hits @ [(t, p)]) (p + length t) of
            (l, out', h) \<Rightarrow> Q l out' h"
      by (rule "1.IH" [OF Some ne m [symmetric] ne step stop P'])
    then show ?thesis using Some m ne
      by (subst maskLoop.simps) simp
  qed
qed

text \<open>On a non-empty token the loop of the source terminates, with the result of \<open>maskLoop\<close>.\<close>

lemma maskLoopSrc_terminates:
  "t \<noteq> [] \<Longrightarrow> maskLoopSrc t lower out hits pos = Some (maskLoop t lower out hits pos)"
proof (induction t lower out hits pos rule: maskLoop.induct)
  case (1 t lower out hits pos)
  show ?case
  proof (cases "str_find lower t pos")
    case None
    then show ?thesis
      by (subst maskLoopSrc.simps, subst maskLoop.simps) simp
  next
    case (Some p)
    obtain out' lower' where m: "maskSpan (length t) p 0 out lower = (out', lower')"
      by (cases "maskSpan (length t) p 0 out lower")
    from "1.IH" [OF Some "1.prems" m [symmetric] "1.prems"]
    have "maskLoopSrc t lower' out' (hits @ [(t, p)]) (p + length t)
        = Some (maskLoop t lower' out' (hits @ [(t, p)]) (p + length t))" .
    then show ?thesis using Some m "1.prems"
      by (subst maskLoopSrc.simps, subst maskLoop.simps) simp
  qed
qed

subsection \<open>The invariant of the masking loops\<close>

lemma covered_Nil [simp]: "\<not> covered [] j"
  by (simp add: covered_def)

lemma covered_snoc: "covered (hits @ [h]) j \<longleftrightarrow> covered hits j \<or> inSpan h j"
  by (auto simp: covered_def list_ex_iff)

lemma covered_iff: "covered hits j \<longleftrightarrow> (\<exists>h\<in>set hits. inSpan h j)"
  by (simp add: covered_def list_ex_iff)

lemma maskInv_init: "maskInv inp (toLowerASCII inp) inp []"
  by (simp add: maskInv_def toLowerASCII_def)

lemma maskInv_step:
  assumes inv: "maskInv inp lower out hits"
    and f: "str_find lower t pos = Some p"
    and ne: "t \<noteq> []"
    and star: "chSTAR \<notin> set t"
    and m: "maskSpan (length t) p 0 out lower = (out', lower')"
  shows "maskInv inp lower' out' (hits @ [(t, p)])"
proof -
  from inv have ll: "length lower = length inp" and lo: "length out = length inp"
    and nl: "\<And>j. j < length inp \<Longrightarrow>
               lower ! j = (if covered hits j then chSTAR else lowerChar (inp ! j))"
    and no: "\<And>j. j < length inp \<Longrightarrow> out ! j = (if covered hits j then chSTAR else inp ! j)"
    and hs: "\<And>h. h \<in> set hits \<Longrightarrow> fst h \<noteq> [] \<and> snd h + length (fst h) \<le> length inp
               \<and> prefix (fst h) (drop (snd h) (toLowerASCII inp))"
    and dj: "sorted_wrt spansDisjoint hits"
    by (simp_all add: maskInv_def)
  from str_find_SomeD(2) [OF f] ll have pb: "p + length t \<le> length inp" by simp
  from str_find_SomeD(3) [OF f] ne have occ: "\<And>k. k < length t \<Longrightarrow> lower ! (p + k) = t ! k"
    by (simp add: prefix_drop_nth)
  have free: "\<not> covered hits (p + k)" if k: "k < length t" for k
  proof
    assume c: "covered hits (p + k)"
    have "p + k < length inp" using k pb by simp
    from nl [OF this] c have "lower ! (p + k) = chSTAR" by simp
    with occ [OF k] have "t ! k = chSTAR" by simp
    with k star show False by (metis nth_mem)
  qed
  have occ_inp: "prefix t (drop p (toLowerASCII inp))"
  proof -
    have "toLowerASCII inp ! (p + k) = t ! k" if k: "k < length t" for k
    proof -
      have j: "p + k < length inp" using k pb by simp
      then have "toLowerASCII inp ! (p + k) = lowerChar (inp ! (p + k))"
        by (simp add: toLowerASCII_def)
      also have "\<dots> = lower ! (p + k)" using nl [OF j] free [OF k] by simp
      finally show ?thesis using occ [OF k] by simp
    qed
    then show ?thesis using pb by (simp add: prefix_drop_nth toLowerASCII_def)
  qed
  have len': "length out' = length inp" "length lower' = length inp"
    using maskSpan_length [of "length t" p 0 out lower] m ll lo by simp_all
  have nl': "lower' ! j = (if covered (hits @ [(t, p)]) j then chSTAR else lowerChar (inp ! j))"
    if j: "j < length inp" for j
  proof -
    have "lower' ! j = (if p \<le> j \<and> j < p + length t then chSTAR else lower ! j)"
      using maskSpan_snd_nth [of lower out j "length t" p 0] m ll lo j by simp
    then show ?thesis using nl [OF j] by (auto simp: covered_snoc inSpan_def)
  qed
  have no': "out' ! j = (if covered (hits @ [(t, p)]) j then chSTAR else inp ! j)"
    if j: "j < length inp" for j
  proof -
    have "out' ! j = (if p \<le> j \<and> j < p + length t then chSTAR else out ! j)"
      using maskSpan_fst_nth [of j out "length t" p 0 lower] m lo j by simp
    then show ?thesis using no [OF j] by (auto simp: covered_snoc inSpan_def)
  qed
  have new_dj: "spansDisjoint h (t, p)" if h: "h \<in> set hits" for h
  proof (rule ccontr)
    assume nd: "\<not> spansDisjoint h (t, p)"
    define j where "j = max (snd h) p"
    from hs [OF h] have hne: "0 < length (fst h)" by simp
    from ne have tne: "0 < length t" by simp
    from nd hne tne have "inSpan h j" and pj: "p \<le> j" and jp: "j < p + length t"
      by (auto simp: spansDisjoint_def inSpan_def j_def)
    then have "covered hits j" using h by (auto simp: covered_iff)
    moreover have "\<not> covered hits (p + (j - p))" using jp pj by (intro free) simp
    ultimately show False using pj by simp
  qed
  have dj': "sorted_wrt spansDisjoint (hits @ [(t, p)])"
    using dj new_dj by (simp add: sorted_wrt_append)
  have hs': "\<forall>h\<in>set (hits @ [(t, p)]). fst h \<noteq> [] \<and> snd h + length (fst h) \<le> length inp
               \<and> prefix (fst h) (drop (snd h) (toLowerASCII inp))"
    using hs ne pb occ_inp by auto
  show ?thesis
    unfolding maskInv_def using len' nl' no' hs' dj' by blast
qed

lemma maskLoop_maskInv:
  assumes "maskInv inp lower out hits" and "t \<noteq> []" and "chSTAR \<notin> set t"
  shows "case maskLoop t lower out hits pos of (l, out', h) \<Rightarrow> maskInv inp l out' h"
proof (rule maskLoop_rule [where P = "\<lambda>lower out hits pos. maskInv inp lower out hits"])
  show "t \<noteq> []" by fact
  show "maskInv inp lower out hits" by fact
next
  fix lower out hits pos p out' lower'
  assume "maskInv inp lower out hits" "str_find lower t pos = Some p"
    "maskSpan (length t) p 0 out lower = (out', lower')"
  then show "maskInv inp lower' out' (hits @ [(t, p)])"
    using assms(2,3) by (intro maskInv_step)
next
  fix lower out hits pos
  assume "maskInv inp lower out hits"
  then show "maskInv inp lower out hits" .
qed

lemma kBlockList_tokens: "t \<in> set kBlockList \<Longrightarrow> t \<noteq> [] \<and> chSTAR \<notin> set t"
  by (auto simp: kBlockList_def)

lemma blocklist_loops_terminate:
  "t \<in> set kBlockList \<Longrightarrow>
     maskLoopSrc t lower out hits pos = Some (maskLoop t lower out hits pos)"
  by (simp add: maskLoopSrc_terminates kBlockList_tokens)

lemma foldl_invariant:
  assumes "P a" and "\<And>a x. x \<in> set xs \<Longrightarrow> P a \<Longrightarrow> P (f a x)"
  shows "P (foldl f a xs)"
  using assms by (induction xs arbitrary: a) simp_all

lemma maskAll_maskInv:
  "case maskAll inp of (lower, out, hits) \<Rightarrow> maskInv inp lower out hits"
  unfolding maskAll_def
proof (rule foldl_invariant)
  show "case (toLowerASCII inp, inp, []) of (lower, out, hits) \<Rightarrow> maskInv inp lower out hits"
    by (simp add: maskInv_init)
next
  fix a :: "string \<times> string \<times> (string \<times> nat) list" and t
  assume t: "t \<in> set kBlockList"
    and a: "case a of (lower, out, hits) \<Rightarrow> maskInv inp lower out hits"
  obtain lower out hits where s: "a = (lower, out, hits)" by (cases a)
  with a have "maskInv inp lower out hits" by simp
  from maskLoop_maskInv [OF this] kBlockList_tokens [OF t]
  have "case maskLoop t lower out hits 0 of (l, out', h) \<Rightarrow> maskInv inp l out' h" by simp
  then show "case (case a of (lower, out, hits) \<Rightarrow> maskLoop t lower out hits 0) of
               (lower, out, hits) \<Rightarrow> maskInv inp lower out hits"
    using s by simp
qed

lemma maskAll_parts:
  "maskAll inp = (fst (maskAll inp), stripNSFWMarkers inp, maskHits inp)"
  by (simp add: stripNSFWMarkers_def maskHits_def split: prod.splits)

lemma stripNSFWMarkers_maskInv:
  "maskInv inp (fst (maskAll inp)) (stripNSFWMarkers inp) (maskHits inp)"
  using maskAll_maskInv [of inp] by (subst (asm) maskAll_parts) simp

lemma maskLoop_tokens:
  assumes "\<forall>h\<in>set hits. fst h \<in> T" and "t \<in> T" and "t \<noteq> []"
  shows "case maskLoop t lower out hits pos of (l, out', hs) \<Rightarrow> \<forall>h\<in>set hs. fst h \<in> T"
proof (rule maskLoop_rule [where P = "\<lambda>lower out hits pos. \<forall>h\<in>set hits. fst h \<in> T"])
  show "t \<noteq> []" by fact
  show "\<forall>h\<in>set hits. fst h \<in> T" by fact
next
  fix hits :: "(string \<times> nat) list" and p
  assume "\<forall>h\<in>set hits. fst h \<in> T"
  then show "\<forall>h\<in>set (hits @ [(t, p)]). fst h \<in> T" using assms(2) by simp
next
  fix hits :: "(string \<times> nat) list"
  assume "\<forall>h\<in>set hits. fst h \<in> T"
  then show "\<forall>h\<in>set hits. fst h \<in> T" .
qed

lemma maskHits_tokens: "h \<in> set (maskHits inp) \<Longrightarrow> fst h \<in> set kBlockList"
proof -
  have "case maskAll inp of (lower, out, hits) \<Rightarrow> \<forall>h\<in>set hits. fst h \<in> set kBlockList"
    unfolding maskAll_def
  proof (rule foldl_invariant)
    show "case (toLowerASCII inp, inp, []) of
            (lower, out, hits) \<Rightarrow> \<forall>h\<in>set hits. fst h \<in> set kBlockList"
      by simp
  next
    fix a :: "string \<times> string \<times> (string \<times> nat) list" and t
    assume t: "t \<in> set kBlockList"
      and a: "case a of (lower, out, hits) \<Rightarrow> \<forall>h\<in>set hits. fst h \<in> set kBlockList"
    obtain lower out hits where s: "a = (lower, out, hits)" by (cases a)
    with a have "\<forall>h\<in>set hits. fst h \<in> set kBlockList" by simp
    from maskLoop_tokens [OF this t] kBlockList_tokens [OF t]
    have "case maskLoop t lower out hits 0 of
            (l, out', hs) \<Rightarrow> \<forall>h\<in>set hs. fst h \<in> set kBlockList"
      by simp
    then show "case (case a of (lower, out, hits) \<Rightarrow> maskLoop t lower out hits 0) of
                 (lower, out, hits) \<Rightarrow> \<forall>h\<in>set hits. fst h \<in> set kBlockList"
      using s by simp
  qed
  then show "h \<in> set (maskHits inp) \<Longrightarrow> fst h \<in> set kBlockList"
    by (subst (asm) maskAll_parts) simp
qed

lemma stripNSFWMarkers_length: "length (stripNSFWMarkers s) = length s"
  using stripNSFWMarkers_maskInv [of s] by (simp add: maskInv_def)

lemma stripNSFWMarkers_nth:
  "j < length s \<Longrightarrow>
   stripNSFWMarkers s ! j = (if covered (maskHits s) j then chSTAR else s ! j)"
  using stripNSFWMarkers_maskInv [of s] by (simp add: maskInv_def)

lemma maskHits_occurrence:
  assumes "h \<in> set (maskHits s)"
  shows "snd h + length (fst h) \<le> length s"
    and "toLowerASCII (take (length (fst h)) (drop (snd h) s)) = fst h"
proof -
  from stripNSFWMarkers_maskInv [of s] assms
  have b: "snd h + length (fst h) \<le> length s"
    and p: "prefix (fst h) (drop (snd h) (toLowerASCII s))"
    by (simp_all add: maskInv_def)
  show "snd h + length (fst h) \<le> length s" by (rule b)
  from p obtain zs where "drop (snd h) (toLowerASCII s) = fst h @ zs"
    by (auto simp: prefix_def)
  then have "take (length (fst h)) (drop (snd h) (toLowerASCII s)) = fst h" by simp
  then show "toLowerASCII (take (length (fst h)) (drop (snd h) s)) = fst h"
    by (simp add: toLowerASCII_def take_map drop_map)
qed

lemma example_hits: "maskHits ''a NUDE cat'' = [(''nude'', 2)]"
  by code_simp

text \<open>
  C5: \<^verbatim>\<open>stripNSFWMarkers\<close> keeps the byte length; the byte at a position is \<open>*\<close> when a
  matched span covers the position and the input's byte otherwise; every matched span is
  an occurrence of a block list token in the input up to ASCII case; and masking
  \<open>a NUDE cat\<close> gives \<open>a **** cat\<close>.
\<close>

theorem stripNSFWMarkers_masks_in_place:
  "length (stripNSFWMarkers s) = length s
   \<and> (\<forall>j<length s. stripNSFWMarkers s ! j = (if covered (maskHits s) j then chSTAR else s ! j))
   \<and> (\<forall>h\<in>set (maskHits s).
         fst h \<in> set kBlockList \<and> snd h + length (fst h) \<le> length s
         \<and> toLowerASCII (take (length (fst h)) (drop (snd h) s)) = fst h)
   \<and> stripNSFWMarkers ''a NUDE cat'' = ''a **** cat''"
proof (intro conjI allI impI ballI)
  show "length (stripNSFWMarkers s) = length s" by (rule stripNSFWMarkers_length)
next
  fix j assume "j < length s"
  then show "stripNSFWMarkers s ! j = (if covered (maskHits s) j then chSTAR else s ! j)"
    by (rule stripNSFWMarkers_nth)
next
  fix h assume h: "h \<in> set (maskHits s)"
  show "fst h \<in> set kBlockList" by (rule maskHits_tokens [OF h])
  show "snd h + length (fst h) \<le> length s" by (rule maskHits_occurrence(1) [OF h])
  show "toLowerASCII (take (length (fst h)) (drop (snd h) s)) = fst h"
    by (rule maskHits_occurrence(2) [OF h])
next
  show "stripNSFWMarkers ''a NUDE cat'' = ''a **** cat''" by code_simp
qed

theorem stripNSFWMarkers_masks_in_place_witness:
  "length (stripNSFWMarkers ''a NUDE cat'') = 10
   \<and> (2::nat) < length ''a NUDE cat''
   \<and> covered (maskHits ''a NUDE cat'') 2
   \<and> stripNSFWMarkers ''a NUDE cat'' ! 2 = chSTAR
   \<and> (0::nat) < length ''a NUDE cat''
   \<and> \<not> covered (maskHits ''a NUDE cat'') 0
   \<and> stripNSFWMarkers ''a NUDE cat'' ! 0 = CHR ''a''
   \<and> (''nude'', 2) \<in> set (maskHits ''a NUDE cat'')
   \<and> ''nude'' \<in> set kBlockList
   \<and> toLowerASCII (take 4 (drop 2 ''a NUDE cat'')) = ''nude''"
proof -
  note T = stripNSFWMarkers_masks_in_place [of "''a NUDE cat''"]
  have c2: "covered (maskHits ''a NUDE cat'') 2" and c0: "\<not> covered (maskHits ''a NUDE cat'') 0"
    by (simp_all add: example_hits covered_def inSpan_def)
  have m: "(''nude'', 2) \<in> set (maskHits ''a NUDE cat'')" by (simp add: example_hits)
  from T have "length (stripNSFWMarkers ''a NUDE cat'') = 10" by simp
  moreover from T c2 have "stripNSFWMarkers ''a NUDE cat'' ! 2 = chSTAR" by simp
  moreover from T c0 have "stripNSFWMarkers ''a NUDE cat'' ! 0 = CHR ''a''" by simp
  moreover from T m have "''nude'' \<in> set kBlockList
      \<and> toLowerASCII (take 4 (drop 2 ''a NUDE cat'')) = ''nude''"
    by fastforce
  ultimately show ?thesis using c2 c0 m by simp
qed

section \<open>The sanitizer as a whole\<close>

lemma printable_star [simp]: "isAsciiPrintable chSTAR"
  by (simp add: isAsciiPrintable_def byte_def)

lemma printable_space [simp]: "isAsciiPrintable chSP"
  by (simp add: isAsciiPrintable_def byte_def)

lemma stripControl_chars:
  "c \<in> set (stripControl s) \<Longrightarrow> isAsciiPrintable c \<or> c = chNL \<or> c = chTAB"
  by (simp add: stripControl_def)

lemma cwRun_chars: "c \<in> set (cwRun b s) \<Longrightarrow> c = chSP \<or> (c \<in> set s \<and> \<not> isWs c)"
  by (induction s arbitrary: b) (auto split: if_splits)

lemma collapseWhitespace_chars:
  "c \<in> set (collapseWhitespace s) \<Longrightarrow> c = chSP \<or> (c \<in> set s \<and> \<not> isWs c)"
  unfolding collapseWhitespace_cwRun trimSpace_def
  by (auto dest: in_set_butlastD cwRun_chars split: if_splits)

lemma stripNSFWMarkers_chars: "c \<in> set (stripNSFWMarkers s) \<Longrightarrow> c = chSTAR \<or> c \<in> set s"
proof -
  assume "c \<in> set (stripNSFWMarkers s)"
  then obtain j where j: "j < length (stripNSFWMarkers s)" and c: "stripNSFWMarkers s ! j = c"
    by (auto simp: in_set_conv_nth)
  from j have js: "j < length s" by (simp add: stripNSFWMarkers_length)
  from stripNSFWMarkers_nth [OF js] c js show ?thesis by (auto split: if_splits)
qed

text \<open>Every byte that leaves the first three stages is printable ASCII.\<close>

lemma stages_printable:
  assumes "c \<in> set (stripNSFWMarkers (collapseWhitespace (stripControl raw)))"
  shows "isAsciiPrintable c"
proof -
  from stripNSFWMarkers_chars [OF assms]
  consider "c = chSTAR" | "c \<in> set (collapseWhitespace (stripControl raw))" by blast
  then show ?thesis
  proof cases
    case 1
    then show ?thesis by simp
  next
    case 2
    from collapseWhitespace_chars [OF 2]
    consider "c = chSP" | "c \<in> set (stripControl raw)" "\<not> isWs c" by blast
    then show ?thesis
    proof cases
      case 1
      then show ?thesis by simp
    next
      case 2
      from stripControl_chars [OF 2(1)] 2(2) show ?thesis by (auto simp: isWs_def)
    qed
  qed
qed

lemma sanitize_Inr:
  "sanitizePromptForVision raw = Inr r \<longleftrightarrow>
     raw \<noteq> [] \<and> stripNSFWMarkers (collapseWhitespace (stripControl raw)) \<noteq> []
     \<and> r = take 8000 (stripNSFWMarkers (collapseWhitespace (stripControl raw)))"
  by (auto simp: sanitizePromptForVision_def Let_def)

lemma build_corePrompt:
  "sanitizePromptForVision raw = Inr r \<Longrightarrow>
     \<exists>plan. buildScenePlanFromPrompt raw m sf q = Inr plan \<and> corePrompt plan = r"
  by (simp add: buildScenePlanFromPrompt_def Let_def)

lemma build_Inr_sanitize:
  "buildScenePlanFromPrompt raw m sf q = Inr plan \<Longrightarrow>
     sanitizePromptForVision raw = Inr (corePrompt plan)"
  by (auto simp: buildScenePlanFromPrompt_def Let_def split: sum.splits)

text \<open>
  C6: when \<^verbatim>\<open>sanitizePromptForVision\<close> succeeds, the plan is built, its \<open>corePrompt\<close>
  is the sanitized string, and that string is non-empty, at most 8000 bytes long, and
  holds only printable ASCII bytes (32 to 126), tabs and newlines.
\<close>

theorem corePrompt_invariants:
  assumes "sanitizePromptForVision raw = Inr r"
  shows "\<exists>plan. buildScenePlanFromPrompt raw m sf q = Inr plan \<and> corePrompt plan = r
           \<and> corePrompt plan \<noteq> [] \<and> length (corePrompt plan) \<le> 8000
           \<and> (\<forall>c\<in>set (corePrompt plan). isAsciiPrintable c \<or> c = chTAB \<or> c = chNL)"
proof -
  let ?s3 = "stripNSFWMarkers (collapseWhitespace (stripControl raw))"
  from assms have ne: "?s3 \<noteq> []" and r: "r = take 8000 ?s3"
    by (simp_all add: sanitize_Inr)
  from ne r have "r \<noteq> []" by simp
  moreover from r have "length r \<le> 8000" by simp
  moreover have "\<forall>c\<in>set r. isAsciiPrintable c \<or> c = chTAB \<or> c = chNL"
  proof
    fix c assume "c \<in> set r"
    then have "c \<in> set ?s3" using r by (auto dest: in_set_takeD)
    then show "isAsciiPrintable c \<or> c = chTAB \<or> c = chNL" by (simp add: stages_printable)
  qed
  ultimately show ?thesis using build_corePrompt [OF assms, of m sf q] by auto
qed

theorem corePrompt_invariants_witness:
  "sanitizePromptForVision [CHR ''a'', chTAB, chNL, CHR 0x01, CHR ''N'', CHR ''u'', CHR ''D'', CHR ''e'', chSP]
     = Inr ''a ****''
   \<and> (\<exists>plan. buildScenePlanFromPrompt
         [CHR ''a'', chTAB, chNL, CHR 0x01, CHR ''N'', CHR ''u'', CHR ''D'', CHR ''e'', chSP]
         TextToImage Safe High = Inr plan
       \<and> corePrompt plan = ''a ****''
       \<and> corePrompt plan \<noteq> [] \<and> length (corePrompt plan) \<le> 8000
       \<and> list_all (\<lambda>c. isAsciiPrintable c \<or> c = chTAB \<or> c = chNL) (corePrompt plan))"
proof -
  have s: "sanitizePromptForVision
      [CHR ''a'', chTAB, chNL, CHR 0x01, CHR ''N'', CHR ''u'', CHR ''D'', CHR ''e'', chSP]
      = Inr ''a ****''"
    by code_simp
  from corePrompt_invariants [OF s, of TextToImage Safe High] s show ?thesis
    by (auto simp: list_all_iff)
qed

text \<open>
  C1: \<^verbatim>\<open>sanitizePromptForVision\<close> fails with \<open>InvalidInput\<close> exactly on the empty prompt;
  on a non-empty prompt it fails with \<open>SanitizationExhausted\<close> exactly when the output of
  the three stages is empty; a failure of the sanitizer is the result of the plan builder
  and of the entry point, so neither a plan nor JSON is produced; in every other case the
  sanitizer returns the output of the three stages, cut at 8000 bytes.
\<close>

theorem sanitize_failures:
  "(sanitizePromptForVision raw = Inl InvalidInput \<longleftrightarrow> raw = [])
   \<and> (raw \<noteq> [] \<longrightarrow>
        (sanitizePromptForVision raw = Inl SanitizationExhausted
           \<longleftrightarrow> stripNSFWMarkers (collapseWhitespace (stripControl raw)) = []))
   \<and> (\<forall>e. sanitizePromptForVision raw = Inl e \<longrightarrow>
          buildScenePlanFromPrompt raw m sf q = Inl e
          \<and> BuildSemanticIGSpec to_string raw m sf q = Inl e)
   \<and> (raw \<noteq> [] \<and> stripNSFWMarkers (collapseWhitespace (stripControl raw)) \<noteq> [] \<longrightarrow>
        sanitizePromptForVision raw
          = Inr (take 8000 (stripNSFWMarkers (collapseWhitespace (stripControl raw)))))"
  by (auto simp: sanitizePromptForVision_def buildScenePlanFromPrompt_def
      BuildSemanticIGSpec_def Let_def)

theorem sanitize_failures_witness:
  "sanitizePromptForVision [] = Inl InvalidInput
   \<and> buildScenePlanFromPrompt [] TextToImage Safe High = Inl InvalidInput
   \<and> BuildSemanticIGSpec (\<lambda>x. ''35.000000'') [] TextToImage Safe High = Inl InvalidInput
   \<and> stripNSFWMarkers (collapseWhitespace (stripControl [CHR 0x01, chSP, chSP])) = []
   \<and> sanitizePromptForVision [CHR 0x01, chSP, chSP] = Inl SanitizationExhausted
   \<and> buildScenePlanFromPrompt [CHR 0x01, chSP, chSP] TextToImage Safe High
       = Inl SanitizationExhausted
   \<and> BuildSemanticIGSpec (\<lambda>x. ''35.000000'') [CHR 0x01, chSP, chSP] TextToImage Safe High
       = Inl SanitizationExhausted
   \<and> stripNSFWMarkers (collapseWhitespace (stripControl ''a  NUDE cat'')) = ''a **** cat''
   \<and> sanitizePromptForVision ''a  NUDE cat'' = Inr ''a **** cat''"
proof -
  have e: "stripNSFWMarkers (collapseWhitespace (stripControl [CHR 0x01, chSP, chSP])) = []"
    by code_simp
  have c: "stripNSFWMarkers (collapseWhitespace (stripControl ''a  NUDE cat'')) = ''a **** cat''"
    by code_simp
  note A = sanitize_failures [of "[]" TextToImage Safe High "\<lambda>x. ''35.000000''"]
  note B = sanitize_failures [of "[CHR 0x01, chSP, chSP]" TextToImage Safe High
      "\<lambda>x. ''35.000000''"]
  note C = sanitize_failures [of "''a  NUDE cat''" TextToImage Safe High "\<lambda>x. ''35.000000''"]
  from A have a1: "sanitizePromptForVision [] = Inl InvalidInput" by simp
  with A have a2: "buildScenePlanFromPrompt [] TextToImage Safe High = Inl InvalidInput"
    and a3: "BuildSemanticIGSpec (\<lambda>x. ''35.000000'') [] TextToImage Safe High
      = Inl InvalidInput"
    by blast+
  from B e have b1: "sanitizePromptForVision [CHR 0x01, chSP, chSP] = Inl SanitizationExhausted"
    by simp
  with B have b2: "buildScenePlanFromPrompt [CHR 0x01, chSP, chSP] TextToImage Safe High
        = Inl SanitizationExhausted"
    and b3: "BuildSemanticIGSpec (\<lambda>x. ''35.000000'') [CHR 0x01, chSP, chSP] TextToImage
        Safe High = Inl SanitizationExhausted"
    by blast+
  from C c have c1: "sanitizePromptForVision ''a  NUDE cat'' = Inr ''a **** cat''" by simp
  from a1 a2 a3 e b1 b2 b3 c c1 show ?thesis by simp
qed

subsection \<open>No token survives the masking\<close>

lemma lowerChar_star [simp]: "lowerChar chSTAR = chSTAR"
  by (simp add: lowerChar_def byte_def)

text \<open>Writing \<open>*\<close> into a buffer creates no occurrence of a token that holds no \<open>*\<close>.\<close>

lemma masking_no_new_occurrence:
  assumes len: "length b' = length b"
    and nth: "\<And>i. i < length b \<Longrightarrow> b' ! i = b ! i \<or> b' ! i = chSTAR"
    and star: "chSTAR \<notin> set u"
    and pre: "prefix u (drop j b')"
  shows "prefix u (drop j b)"
proof (cases "u = []")
  case True
  then show ?thesis by simp
next
  case False
  with pre have b: "j + length u \<le> length b'" and eq: "\<And>k. k < length u \<Longrightarrow> b' ! (j + k) = u ! k"
    by (simp_all add: prefix_drop_nth)
  have "b ! (j + k) = u ! k" if k: "k < length u" for k
  proof -
    have "u ! k \<noteq> chSTAR" using star k by (metis nth_mem)
    then have "b' ! (j + k) \<noteq> chSTAR" using eq [OF k] by simp
    moreover have "j + k < length b" using k b len by simp
    ultimately have "b' ! (j + k) = b ! (j + k)" using nth by blast
    then show ?thesis using eq [OF k] by simp
  qed
  then show ?thesis using b len by (simp add: prefix_drop_nth)
qed

lemma maskSpan_lower:
  assumes "length lower = length out" and "maskSpan n p 0 out lower = (out', lower')"
  shows "length lower' = length lower" and "length out' = length out"
    and "\<And>i. i < length lower \<Longrightarrow>
           lower' ! i = (if p \<le> i \<and> i < p + n then chSTAR else lower ! i)"
proof -
  show "length lower' = length lower" "length out' = length out"
    using maskSpan_length [of n p 0 out lower] assms(2) by simp_all
  fix i assume "i < length lower"
  from maskSpan_snd_nth [OF assms(1) this, of n p 0] assms(2)
  show "lower' ! i = (if p \<le> i \<and> i < p + n then chSTAR else lower ! i)" by simp
qed

lemma maskLoop_clean:
  assumes ne: "t \<noteq> []" and star: "chSTAR \<notin> set t"
    and len: "length lower = length out"
    and U: "\<forall>u\<in>U. chSTAR \<notin> set u \<and> \<not> sublist u lower"
  shows "case maskLoop t lower out hits 0 of
           (l, out', h) \<Rightarrow> length l = length out'
             \<and> (\<forall>u\<in>insert t U. chSTAR \<notin> set u \<and> \<not> sublist u l)"
proof (rule maskLoop_rule [where
      P = "\<lambda>lower out hits pos. length lower = length out
             \<and> (\<forall>u\<in>U. chSTAR \<notin> set u \<and> \<not> sublist u lower)
             \<and> (\<forall>j<pos. \<not> prefix t (drop j lower))"])
  show "t \<noteq> []" by fact
  show "length lower = length out \<and> (\<forall>u\<in>U. chSTAR \<notin> set u \<and> \<not> sublist u lower)
          \<and> (\<forall>j<0. \<not> prefix t (drop j lower))"
    using len U by simp
next
  fix lower out :: string and hits :: "(string \<times> nat) list" and pos p and out' lower' :: string
  assume P: "length lower = length out \<and> (\<forall>u\<in>U. chSTAR \<notin> set u \<and> \<not> sublist u lower)
          \<and> (\<forall>j<pos. \<not> prefix t (drop j lower))"
    and f: "str_find lower t pos = Some p"
    and m: "maskSpan (length t) p 0 out lower = (out', lower')"
  from P have len: "length lower = length out" by simp
  note ms = maskSpan_lower [OF len m]
  have weaker: "lower' ! i = lower ! i \<or> lower' ! i = chSTAR" if "i < length lower" for i
    using ms(3) [OF that] by simp
  have keep: "prefix u (drop j lower)" if "chSTAR \<notin> set u" "prefix u (drop j lower')" for u j
    using masking_no_new_occurrence [OF ms(1) weaker that] by simp
  have "\<forall>u\<in>U. chSTAR \<notin> set u \<and> \<not> sublist u lower'"
  proof
    fix u assume u: "u \<in> U"
    with P have su: "chSTAR \<notin> set u" and cl: "\<not> sublist u lower" by simp_all
    have "\<not> sublist u lower'"
    proof
      assume "sublist u lower'"
      then obtain j where "prefix u (drop j lower')" by (auto simp: sublist_iff_prefix_drop)
      from keep [OF su this] cl show False by (auto simp: sublist_iff_prefix_drop)
    qed
    with su show "chSTAR \<notin> set u \<and> \<not> sublist u lower'" by simp
  qed
  moreover have "\<forall>j<p + length t. \<not> prefix t (drop j lower')"
  proof (intro allI impI notI)
    fix j assume j: "j < p + length t" and pre: "prefix t (drop j lower')"
    from keep [OF star pre] have old: "prefix t (drop j lower)" .
    have "\<not> j < pos" using P old by blast
    moreover have "\<not> (pos \<le> j \<and> j < p)" using str_find_SomeD(4) [OF f] old by blast
    ultimately have pj: "p \<le> j" by simp
    from str_find_SomeD(2) [OF f] j have jl: "j < length lower" by simp
    from ms(3) [OF jl] pj j have "lower' ! j = chSTAR" by simp
    moreover have "lower' ! (j + 0) = t ! 0"
    proof -
      from ne have "0 < length t" by simp
      moreover from pre ne have "\<forall>k<length t. lower' ! (j + k) = t ! k"
        by (simp add: prefix_drop_nth)
      ultimately show ?thesis by blast
    qed
    moreover have "t ! 0 \<in> set t" using ne by simp
    ultimately show False using star by simp
  qed
  ultimately show "length lower' = length out'
      \<and> (\<forall>u\<in>U. chSTAR \<notin> set u \<and> \<not> sublist u lower')
      \<and> (\<forall>j<p + length t. \<not> prefix t (drop j lower'))"
    using ms(1,2) len by simp
next
  fix lower out :: string and hits :: "(string \<times> nat) list" and pos
  assume P: "length lower = length out \<and> (\<forall>u\<in>U. chSTAR \<notin> set u \<and> \<not> sublist u lower)
          \<and> (\<forall>j<pos. \<not> prefix t (drop j lower))"
    and f: "str_find lower t pos = None"
  have "\<not> prefix t (drop j lower)" for j
  proof (cases "j < pos")
    case True
    with P show ?thesis by simp
  next
    case False
    then show ?thesis using str_find_NoneD [OF f ne, of j] by simp
  qed
  then have "\<not> sublist t lower" by (simp add: sublist_iff_prefix_drop)
  with P star show "length lower = length out
      \<and> (\<forall>u\<in>insert t U. chSTAR \<notin> set u \<and> \<not> sublist u lower)"
    by simp
qed

lemma maskTokens_clean:
  assumes "\<forall>t\<in>set ts. t \<noteq> [] \<and> chSTAR \<notin> set t"
    and "length lower = length out"
    and "\<forall>u\<in>U. chSTAR \<notin> set u \<and> \<not> sublist u lower"
  shows "case foldl (\<lambda>st t. case st of (lower, out, hits) \<Rightarrow> maskLoop t lower out hits 0)
              (lower, out, hits) ts of
           (l, out', h) \<Rightarrow> \<forall>u\<in>U \<union> set ts. \<not> sublist u l"
  using assms
proof (induction ts arbitrary: lower out hits U)
  case Nil
  then show ?case by simp
next
  case (Cons t ts)
  obtain l out' h where r: "maskLoop t lower out hits 0 = (l, out', h)"
    by (cases "maskLoop t lower out hits 0")
  from Cons.prems(1) have t: "t \<noteq> []" "chSTAR \<notin> set t" by simp_all
  from maskLoop_clean [OF t Cons.prems(2,3), of hits] r
  have len: "length l = length out'"
    and U': "\<forall>u\<in>insert t U. chSTAR \<notin> set u \<and> \<not> sublist u l"
    by simp_all
  from Cons.prems(1) have ts: "\<forall>t\<in>set ts. t \<noteq> [] \<and> chSTAR \<notin> set t" by simp
  from Cons.IH [OF ts len U', of h] show ?case using r by simp
qed

lemma maskAll_clean: "t \<in> set kBlockList \<Longrightarrow> \<not> sublist t (fst (maskAll inp))"
proof -
  assume t: "t \<in> set kBlockList"
  have "case maskAll inp of (l, out', h) \<Rightarrow> \<forall>u\<in>{} \<union> set kBlockList. \<not> sublist u l"
    unfolding maskAll_def
    by (rule maskTokens_clean) (simp_all add: kBlockList_tokens toLowerASCII_def)
  with t show ?thesis by (auto split: prod.splits)
qed

text \<open>The search buffer is the lowercased output, at the end as at the start.\<close>

lemma lower_of_stripNSFWMarkers: "toLowerASCII (stripNSFWMarkers inp) = fst (maskAll inp)"
proof (rule nth_equalityI)
  from stripNSFWMarkers_maskInv [of inp]
  show "length (toLowerASCII (stripNSFWMarkers inp)) = length (fst (maskAll inp))"
    by (simp add: maskInv_def toLowerASCII_def)
next
  fix i assume "i < length (toLowerASCII (stripNSFWMarkers inp))"
  then have i: "i < length inp" by (simp add: toLowerASCII_def stripNSFWMarkers_length)
  with stripNSFWMarkers_maskInv [of inp]
  show "toLowerASCII (stripNSFWMarkers inp) ! i = fst (maskAll inp) ! i"
    by (simp add: maskInv_def toLowerASCII_def)
qed

text \<open>The code's lowercasing identifies the two forms of every ASCII letter.\<close>

lemma lowerChar_letters:
  "list_all (\<lambda>(u, l). lowerChar u = l \<and> lowerChar l = l) (zip asciiUpper asciiLower)"
  by code_simp

lemma sameLetter_lowerChar: "sameLetter a b \<Longrightarrow> lowerChar a = lowerChar b"
proof -
  assume "sameLetter a b"
  then consider "a = b" | "(a, b) \<in> set (zip asciiUpper asciiLower)"
    | "(b, a) \<in> set (zip asciiUpper asciiLower)"
    by (auto simp: sameLetter_def)
  then show ?thesis
  proof cases
    case 1
    then show ?thesis by simp
  next
    case 2
    with lowerChar_letters show ?thesis by (auto simp: list_all_iff)
  next
    case 3
    with lowerChar_letters show ?thesis by (auto simp: list_all_iff)
  qed
qed

lemma ignoringCase_lower: "list_all2 sameLetter w t \<Longrightarrow> toLowerASCII w = toLowerASCII t"
  by (induction rule: list_all2_induct) (simp_all add: toLowerASCII_def sameLetter_lowerChar)

lemma kBlockList_lowercase: "t \<in> set kBlockList \<Longrightarrow> toLowerASCII t = t"
proof -
  have "list_all (\<lambda>t. toLowerASCII t = t) kBlockList" by code_simp
  then show "t \<in> set kBlockList \<Longrightarrow> toLowerASCII t = t" by (simp add: list_all_iff)
qed

lemma sublist_toLowerASCII: "sublist w s \<Longrightarrow> sublist (toLowerASCII w) (toLowerASCII s)"
proof -
  assume "sublist w s"
  then obtain ps ss where "s = ps @ w @ ss" by (auto simp: sublist_def)
  then have "toLowerASCII s = toLowerASCII ps @ toLowerASCII w @ toLowerASCII ss"
    by (simp add: toLowerASCII_def)
  then show ?thesis by simp
qed

lemma occursIgnoringCase_lower:
  assumes "t \<in> set kBlockList" and "occursIgnoringCase t s"
  shows "sublist t (toLowerASCII s)"
proof -
  from assms(2) obtain w where w: "sublist w s" and m: "list_all2 sameLetter w t"
    by (auto simp: occursIgnoringCase_def)
  from ignoringCase_lower [OF m] kBlockList_lowercase [OF assms(1)]
  have "toLowerASCII w = t" by simp
  with sublist_toLowerASCII [OF w] show ?thesis by simp
qed

text \<open>
  C10: no block list token occurs, ignoring ASCII case, in the output of
  \<^verbatim>\<open>stripNSFWMarkers\<close>, nor in a string that \<^verbatim>\<open>sanitizePromptForVision\<close> returns (the
  output cut at 8000 bytes); in particular the lowercased output has no token as a
  contiguous substring. The tokens of \<open>NUDE Porn NSFW\<close> are all masked.
\<close>

theorem no_blocklist_token_survives:
  "(\<forall>t\<in>set kBlockList. \<not> occursIgnoringCase t (stripNSFWMarkers s))
   \<and> (\<forall>r. sanitizePromptForVision s = Inr r \<longrightarrow>
          (\<forall>t\<in>set kBlockList. \<not> occursIgnoringCase t r))
   \<and> (\<forall>t\<in>set kBlockList. \<not> sublist t (toLowerASCII (stripNSFWMarkers s)))
   \<and> (\<forall>r. sanitizePromptForVision s = Inr r \<longrightarrow>
          (\<forall>t\<in>set kBlockList. \<not> sublist t (toLowerASCII r)))
   \<and> stripNSFWMarkers ''NUDE Porn NSFW'' = ''**** **** ****''"
proof -
  have a: "\<not> sublist t (toLowerASCII (stripNSFWMarkers s))" if "t \<in> set kBlockList" for t
    using that by (simp add: lower_of_stripNSFWMarkers maskAll_clean)
  have b: "\<not> sublist t (toLowerASCII r)"
    if r: "sanitizePromptForVision s = Inr r" and t: "t \<in> set kBlockList" for r t
  proof -
    let ?s3 = "stripNSFWMarkers (collapseWhitespace (stripControl s))"
    from r have "toLowerASCII r = take 8000 (toLowerASCII ?s3)"
      by (simp add: sanitize_Inr toLowerASCII_def take_map)
    then have "sublist (toLowerASCII r) (toLowerASCII ?s3)" by simp
    moreover have "\<not> sublist t (toLowerASCII ?s3)"
      using t by (simp add: lower_of_stripNSFWMarkers maskAll_clean)
    ultimately show ?thesis using sublist_order.order_trans by blast
  qed
  have c: "\<not> occursIgnoringCase t (stripNSFWMarkers s)" if "t \<in> set kBlockList" for t
    using a [OF that] occursIgnoringCase_lower [OF that] by blast
  have d: "\<not> occursIgnoringCase t r"
    if "sanitizePromptForVision s = Inr r" and "t \<in> set kBlockList" for r t
    using b [OF that] occursIgnoringCase_lower [OF that(2)] by blast
  have e: "stripNSFWMarkers ''NUDE Porn NSFW'' = ''**** **** ****''" by code_simp
  from a b c d e show ?thesis by blast
qed

theorem no_blocklist_token_survives_witness:
  "''porn'' \<in> set kBlockList \<and> ''nude'' \<in> set kBlockList
   \<and> occursIgnoringCase ''porn'' ''a PoRn NUDE cat''
   \<and> occursIgnoringCase ''nude'' ''a PoRn NUDE cat''
   \<and> stripNSFWMarkers ''a PoRn NUDE cat'' = ''a **** **** cat''
   \<and> \<not> occursIgnoringCase ''porn'' (stripNSFWMarkers ''a PoRn NUDE cat'')
   \<and> \<not> occursIgnoringCase ''nude'' (stripNSFWMarkers ''a PoRn NUDE cat'')
   \<and> sanitizePromptForVision ''a PoRn NUDE cat'' = Inr ''a **** **** cat''
   \<and> \<not> occursIgnoringCase ''nude'' ''a **** **** cat''
   \<and> \<not> sublist ''nude'' (toLowerASCII ''a **** **** cat'')"
proof -
  have k: "''porn'' \<in> set kBlockList" "''nude'' \<in> set kBlockList"
    by (simp_all add: kBlockList_def)
  have l1: "list_all2 sameLetter ''PoRn'' ''porn''"
    by (simp add: sameLetter_def asciiUpper_def asciiLower_def)
  have l2: "list_all2 sameLetter ''NUDE'' ''nude''"
    by (simp add: sameLetter_def asciiUpper_def asciiLower_def)
  have "sublist ''PoRn'' (''a '' @ ''PoRn'' @ '' NUDE cat'')" by (rule sublist_appendI)
  with l1 have o1: "occursIgnoringCase ''porn'' ''a PoRn NUDE cat''"
    unfolding occursIgnoringCase_def by (intro exI [of _ "''PoRn''"]) simp
  have "sublist ''NUDE'' (''a PoRn '' @ ''NUDE'' @ '' cat'')" by (rule sublist_appendI)
  with l2 have o2: "occursIgnoringCase ''nude'' ''a PoRn NUDE cat''"
    unfolding occursIgnoringCase_def by (intro exI [of _ "''NUDE''"]) simp
  have s: "stripNSFWMarkers ''a PoRn NUDE cat'' = ''a **** **** cat''" by code_simp
  have r: "sanitizePromptForVision ''a PoRn NUDE cat'' = Inr ''a **** **** cat''" by code_simp
  note T = no_blocklist_token_survives [of "''a PoRn NUDE cat''"]
  from T k have n1: "\<not> occursIgnoringCase ''porn'' (stripNSFWMarkers ''a PoRn NUDE cat'')"
    and n2: "\<not> occursIgnoringCase ''nude'' (stripNSFWMarkers ''a PoRn NUDE cat'')"
    by blast+
  from T k r have n3: "\<not> occursIgnoringCase ''nude'' ''a **** **** cat''"
    and n4: "\<not> sublist ''nude'' (toLowerASCII ''a **** **** cat'')"
    by blast+
  from k o1 o2 s n1 n2 r n3 n4 show ?thesis by simp
qed

subsection \<open>The order of the matches\<close>

lemma blockRank_done:
  assumes "kBlockList = seen @ t # todo" and "t \<notin> set seen"
  shows "blockRank t = length seen" and "u \<in> set seen \<Longrightarrow> blockRank u < blockRank t"
proof -
  have "takeWhile (\<lambda>x. x \<noteq> t) (seen @ t # todo) = seen @ takeWhile (\<lambda>x. x \<noteq> t) (t # todo)"
    by (rule takeWhile_append2) (use assms(2) in auto)
  then show r: "blockRank t = length seen"
    unfolding blockRank_def assms(1) by simp
  assume u: "u \<in> set seen"
  then have "takeWhile (\<lambda>x. x \<noteq> u) (seen @ t # todo) = takeWhile (\<lambda>x. x \<noteq> u) seen"
    by simp
  moreover have "length (takeWhile (\<lambda>x. x \<noteq> u) seen) < length seen"
  proof (rule ccontr)
    assume "\<not> length (takeWhile (\<lambda>x. x \<noteq> u) seen) < length seen"
    then have "length (takeWhile (\<lambda>x. x \<noteq> u) seen) = length seen"
      using length_takeWhile_le [of "\<lambda>x. x \<noteq> u" seen] by simp
    then have "takeWhile (\<lambda>x. x \<noteq> u) seen = seen"
      by (metis append_eq_conv_conj takeWhile_dropWhile_id append_Nil2 length_0_conv
          length_append add_cancel_left_right)
    then have "\<forall>x\<in>set seen. x \<noteq> u" by (simp only: takeWhile_eq_all_conv)
    with u show False by blast
  qed
  ultimately have "length (takeWhile (\<lambda>x. x \<noteq> u) (seen @ t # todo)) < length seen"
    by simp
  then show "blockRank u < blockRank t"
    unfolding r unfolding blockRank_def assms(1) .
qed

lemma maskLoop_order:
  assumes ne: "t \<noteq> []"
    and srt: "sorted_wrt hitOrder hits"
    and low: "\<forall>h\<in>set hits. blockRank (fst h) < blockRank t"
  shows "case maskLoop t lower out hits 0 of (l, out', hs) \<Rightarrow> sorted_wrt hitOrder hs"
proof (rule maskLoop_rule [where
      P = "\<lambda>lower out hits pos. sorted_wrt hitOrder hits
             \<and> (\<forall>h\<in>set hits. blockRank (fst h) < blockRank t
                    \<or> (fst h = t \<and> snd h + length t \<le> pos))"])
  show "t \<noteq> []" by fact
  show "sorted_wrt hitOrder hits
      \<and> (\<forall>h\<in>set hits. blockRank (fst h) < blockRank t \<or> (fst h = t \<and> snd h + length t \<le> 0))"
    using srt low by simp
next
  fix lower out :: string and hits :: "(string \<times> nat) list" and pos p and out' lower' :: string
  assume P: "sorted_wrt hitOrder hits
      \<and> (\<forall>h\<in>set hits. blockRank (fst h) < blockRank t
             \<or> (fst h = t \<and> snd h + length t \<le> pos))"
    and f: "str_find lower t pos = Some p"
  from str_find_SomeD(1) [OF f] have pp: "pos \<le> p" .
  have "\<forall>h\<in>set hits. hitOrder h (t, p)"
  proof
    fix h assume "h \<in> set hits"
    with P have "blockRank (fst h) < blockRank t \<or> (fst h = t \<and> snd h + length t \<le> pos)"
      by simp
    then show "hitOrder h (t, p)" using pp by (auto simp: hitOrder_def)
  qed
  with P have "sorted_wrt hitOrder (hits @ [(t, p)])" by (simp add: sorted_wrt_append)
  moreover have "\<forall>h\<in>set (hits @ [(t, p)]). blockRank (fst h) < blockRank t
      \<or> (fst h = t \<and> snd h + length t \<le> p + length t)"
    using P pp by auto
  ultimately show "sorted_wrt hitOrder (hits @ [(t, p)])
      \<and> (\<forall>h\<in>set (hits @ [(t, p)]). blockRank (fst h) < blockRank t
             \<or> (fst h = t \<and> snd h + length t \<le> p + length t))"
    by simp
next
  fix hits :: "(string \<times> nat) list" and pos
  assume "sorted_wrt hitOrder hits
      \<and> (\<forall>h\<in>set hits. blockRank (fst h) < blockRank t
             \<or> (fst h = t \<and> snd h + length t \<le> pos))"
  then show "sorted_wrt hitOrder hits" by simp
qed

lemma maskTokens_order:
  assumes "kBlockList = seen @ todo"
    and "sorted_wrt hitOrder hits"
    and "\<forall>h\<in>set hits. fst h \<in> set seen"
  shows "case foldl (\<lambda>st t. case st of (lower, out, hits) \<Rightarrow> maskLoop t lower out hits 0)
              (lower, out, hits) todo of
           (l, out', hs) \<Rightarrow> sorted_wrt hitOrder hs"
  using assms
proof (induction todo arbitrary: seen lower out hits)
  case Nil
  then show ?case by simp
next
  case (Cons t todo)
  have d: "distinct kBlockList" by (simp add: kBlockList_def)
  from d [unfolded Cons.prems(1)] have nd: "t \<notin> set seen" by simp
  have tk: "t \<in> set kBlockList" unfolding Cons.prems(1) by simp
  then have ne: "t \<noteq> []" by (simp add: kBlockList_tokens)
  have low: "\<forall>h\<in>set hits. blockRank (fst h) < blockRank t"
    using Cons.prems(3) blockRank_done(2) [OF Cons.prems(1) nd] by blast
  obtain l out' hs where r: "maskLoop t lower out hits 0 = (l, out', hs)"
    by (cases "maskLoop t lower out hits 0")
  from maskLoop_order [OF ne Cons.prems(2) low, of lower out] r
  have srt: "sorted_wrt hitOrder hs" by simp
  have "\<forall>h\<in>set hits. fst h \<in> set (seen @ [t])" using Cons.prems(3) by simp
  from maskLoop_tokens [OF this _ ne, of lower out 0] r
  have mem: "\<forall>h\<in>set hs. fst h \<in> set (seen @ [t])" by simp
  have k: "kBlockList = (seen @ [t]) @ todo" using Cons.prems(1) by simp
  from Cons.IH [OF k srt mem, of l out'] show ?case using r by simp
qed

lemma maskHits_ordered: "sorted_wrt hitOrder (maskHits inp)"
proof -
  have "case maskAll inp of (l, out', hs) \<Rightarrow> sorted_wrt hitOrder hs"
    unfolding maskAll_def by (rule maskTokens_order [where seen = "[]"]) simp_all
  then show ?thesis by (subst (asm) maskAll_parts) simp
qed

lemma maskHits_disjoint: "sorted_wrt spansDisjoint (maskHits inp)"
  using stripNSFWMarkers_maskInv [of inp] by (simp add: maskInv_def)

lemma maskHits_unmasked:
  assumes "h \<in> set (maskHits s)" and "k < length (fst h)"
  shows "toLowerASCII s ! (snd h + k) = fst h ! k" and "fst h ! k \<noteq> chSTAR"
proof -
  from stripNSFWMarkers_maskInv [of s] assms(1)
  have "fst h \<noteq> []" and "prefix (fst h) (drop (snd h) (toLowerASCII s))"
    by (simp_all add: maskInv_def)
  then show "toLowerASCII s ! (snd h + k) = fst h ! k"
    using assms(2) by (simp add: prefix_drop_nth)
  from maskHits_tokens [OF assms(1)] have "chSTAR \<notin> set (fst h)"
    by (simp add: kBlockList_tokens)
  then show "fst h ! k \<noteq> chSTAR" using assms(2) by (metis nth_mem)
qed

text \<open>
  C2, as stated, fails in its last clause: on no input does a later match take a
  character of an earlier match's span. The search buffer is masked together with the
  output, and no token holds a \<open>*\<close>.
\<close>

theorem later_match_inside_masked_span_counterexample:
  "\<not> (\<exists>s i j. i < j \<and> j < length (maskHits s)
        \<and> \<not> spansDisjoint (maskHits s ! i) (maskHits s ! j))"
  using maskHits_disjoint by (auto simp: sorted_wrt_iff_nth_less)

text \<open>
  C2, amended: the tokens are applied in the order of the block list, each from position
  0 of the masked buffer, and the search for a token resumes right after the end of each
  match; so the matches are ordered by token rank and, for one token, by position. Every
  match lies on text of the lowercased input that is still unmasked, so no two matched
  spans overlap: where occurrences of two tokens overlap in the input, only the first
  one found is masked and the other survives in part (\<open>pornude\<close> becomes \<open>por****\<close>).
\<close>

theorem blocklist_order_and_disjoint_matches:
  "kBlockList = [''nsfw'', ''nude'', ''nudity'', ''porn'', ''explicit'', ''sexual'', ''erotic'']
   \<and> sorted_wrt hitOrder (maskHits s)
   \<and> sorted_wrt spansDisjoint (maskHits s)
   \<and> (\<forall>h\<in>set (maskHits s). \<forall>k<length (fst h).
         toLowerASCII s ! (snd h + k) = fst h ! k \<and> fst h ! k \<noteq> chSTAR)
   \<and> maskHits ''nude nsfw'' = [(''nsfw'', 5), (''nude'', 0)]
   \<and> maskHits ''nudenude'' = [(''nude'', 0), (''nude'', 4)]
   \<and> maskHits ''pornude'' = [(''nude'', 3)]
   \<and> stripNSFWMarkers ''pornude'' = ''por****''"
proof (intro conjI ballI allI impI)
  show "kBlockList = [''nsfw'', ''nude'', ''nudity'', ''porn'', ''explicit'', ''sexual'', ''erotic'']"
    by (simp add: kBlockList_def)
  show "sorted_wrt hitOrder (maskHits s)" by (rule maskHits_ordered)
  show "sorted_wrt spansDisjoint (maskHits s)" by (rule maskHits_disjoint)
  show "maskHits ''nude nsfw'' = [(''nsfw'', 5), (''nude'', 0)]" by code_simp
  show "maskHits ''nudenude'' = [(''nude'', 0), (''nude'', 4)]" by code_simp
  show "maskHits ''pornude'' = [(''nude'', 3)]" by code_simp
  show "stripNSFWMarkers ''pornude'' = ''por****''" by code_simp
next
  fix h k assume "h \<in> set (maskHits s)" "k < length (fst h)"
  then show "toLowerASCII s ! (snd h + k) = fst h ! k" "fst h ! k \<noteq> chSTAR"
    by (rule maskHits_unmasked)+
qed

theorem blocklist_order_and_disjoint_matches_witness:
  "maskHits ''porn nudenude NSFW'' = [(''nsfw'', 14), (''nude'', 5), (''nude'', 9), (''porn'', 0)]
   \<and> hitOrder (''nsfw'', 14) (''nude'', 5) \<and> hitOrder (''nude'', 5) (''nude'', 9)
   \<and> hitOrder (''nude'', 9) (''porn'', 0)
   \<and> spansDisjoint (''nude'', 5) (''nude'', 9) \<and> spansDisjoint (''nsfw'', 14) (''porn'', 0)
   \<and> (''nude'', 9) \<in> set (maskHits ''porn nudenude NSFW'')
   \<and> (1::nat) < length ''nude''
   \<and> toLowerASCII ''porn nudenude NSFW'' ! (9 + 1) = CHR ''u''"
proof -
  have h: "maskHits ''porn nudenude NSFW''
      = [(''nsfw'', 14), (''nude'', 5), (''nude'', 9), (''porn'', 0)]"
    by code_simp
  note T = blocklist_order_and_disjoint_matches [of "''porn nudenude NSFW''"]
  from T have "sorted_wrt hitOrder (maskHits ''porn nudenude NSFW'')" by blast
  then have o: "hitOrder (''nsfw'', 14) (''nude'', 5) \<and> hitOrder (''nude'', 5) (''nude'', 9)
      \<and> hitOrder (''nude'', 9) (''porn'', 0)"
    unfolding h by simp
  from T have "sorted_wrt spansDisjoint (maskHits ''porn nudenude NSFW'')" by blast
  then have d: "spansDisjoint (''nude'', 5) (''nude'', 9) \<and> spansDisjoint (''nsfw'', 14) (''porn'', 0)"
    unfolding h by simp
  have m: "(''nude'', 9) \<in> set (maskHits ''porn nudenude NSFW'')" unfolding h by simp
  from T have "\<forall>h\<in>set (maskHits ''porn nudenude NSFW''). \<forall>k<length (fst h).
         toLowerASCII ''porn nudenude NSFW'' ! (snd h + k) = fst h ! k \<and> fst h ! k \<noteq> chSTAR"
    by blast
  with m have A: "\<forall>k<length ''nude''. toLowerASCII ''porn nudenude NSFW'' ! (9 + k) = ''nude'' ! k"
    by fastforce
  have "toLowerASCII ''porn nudenude NSFW'' ! (9 + 1) = ''nude'' ! 1"
    by (rule A [rule_format]) simp
  then have u: "toLowerASCII ''porn nudenude NSFW'' ! (9 + 1) = CHR ''u''" by simp
  from h o d m u show ?thesis by simp
qed

section \<open>The serializer against the specification's JSON layout\<close>

lemma jsonEscapeChar_spec: "jsonEscapeChar c = spec_escapeByte c"
  by (simp add: jsonEscapeChar_def spec_escapeByte_def)

lemma foldl_append_concat: "foldl (\<lambda>out c. out @ f c) acc xs = acc @ concat (map f xs)"
  by (induction xs arbitrary: acc) simp_all

lemma jsonEscape_spec: "jsonEscape s = spec_escape s"
  by (simp add: jsonEscape_def spec_escape_def foldl_append_concat jsonEscapeChar_spec)

lemma render_subject:
  "render (spec_subjectJSON s) =
     ''{'' @ ''\"name\":\"'' @ jsonEscape (name s) @ ''\",''
     @ ''\"attributes\":\"'' @ jsonEscape (attributes s) @ ''\",''
     @ ''\"position_hint\":\"'' @ jsonEscape (positionHint s) @ ''\"'' @ ''}''"
  by (simp add: spec_subjectJSON_def jsonEscape_spec)

lemma secondaryJSON_spec:
  "secondaryJSON xs = joinComma (map (\<lambda>s. render (spec_subjectJSON s)) xs)"
proof (induction xs)
  case Nil
  show ?case by simp
next
  case (Cons s rest)
  show ?case
  proof (cases rest)
    case Nil
    then show ?thesis by (simp add: render_subject)
  next
    case (Cons s' rest')
    with Cons.IH show ?thesis by (simp add: render_subject)
  qed
qed

text \<open>The code's \<^verbatim>\<open>toString\<close> tables are the specification's table, entry by entry.\<close>

lemma toString_spec_tokens:
  "toString_IGMode a = spec_token_IGMode a"
  "toString_SafetyProfile b = spec_token_SafetyProfile b"
  "toString_QualityPreset c = spec_token_QualityPreset c"
  "toString_AspectRatio d = spec_token_AspectRatio d"
  "toString_ColorTone e = spec_token_ColorTone e"
  "toString_Lighting f = spec_token_Lighting f"
  "toString_CameraAngle g = spec_token_CameraAngle g"
  "toString_CompositionRule h = spec_token_CompositionRule h"
  "toString_ArtStyle i = spec_token_ArtStyle i"
  "toString_BrushDetail j = spec_token_BrushDetail j"
proof -
  show "toString_IGMode a = spec_token_IGMode a" by (cases a) simp_all
  show "toString_SafetyProfile b = spec_token_SafetyProfile b" by (cases b) simp_all
  show "toString_QualityPreset c = spec_token_QualityPreset c" by (cases c) simp_all
  show "toString_AspectRatio d = spec_token_AspectRatio d" by (cases d) simp_all
  show "toString_ColorTone e = spec_token_ColorTone e" by (cases e) simp_all
  show "toString_Lighting f = spec_token_Lighting f" by (cases f) simp_all
  show "toString_CameraAngle g = spec_token_CameraAngle g" by (cases g) simp_all
  show "toString_CompositionRule h = spec_token_CompositionRule h" by (cases h) simp_all
  show "toString_ArtStyle i = spec_token_ArtStyle i" by (cases i) simp_all
  show "toString_BrushDetail j = spec_token_BrushDetail j" by (cases j) simp_all
qed

lemma serialize_render:
  "serializeScenePlanToJSON to_string p = render (spec_planJSON to_string p)"
  by (simp add: serializeScenePlanToJSON_def spec_planJSON_def secondaryJSON_spec
      toString_spec_tokens
      render_subject jsonEscape_spec boolText_def comp_def)

lemma keyOrder_plan:
  "keyOrder (spec_planJSON to_string p) =
     [(''core_prompt'', []), (''mode'', []), (''safety_profile'', []), (''quality_preset'', []),
      (''aspect_ratio'', []),
      (''primary_subject'', [''name'', ''attributes'', ''position_hint'']),
      (''secondary_subjects'', []),
      (''background'', [''environment'', ''time_of_day'', ''weather'']),
      (''color_lighting'', [''color_tone'', ''lighting'', ''palette_hint'']),
      (''camera'', [''angle'', ''focal_length_mm'', ''depth_of_field'']),
      (''composition'', [''rule'', ''allow_cropping'', ''center_main_subject'']),
      (''art_style'', [''style'', ''brush_detail'', ''era_hint'']),
      (''negative_constraints'', [''visual_artifacts'', ''content_exclusions''])]"
  by (simp add: spec_planJSON_def spec_subjectJSON_def)

lemma enumToken_tables:
  "enumToken (toString_IGMode a)" "enumToken (toString_SafetyProfile b)"
  "enumToken (toString_QualityPreset c)" "enumToken (toString_AspectRatio d)"
  "enumToken (toString_ColorTone e)" "enumToken (toString_Lighting f)"
  "enumToken (toString_CameraAngle g)" "enumToken (toString_CompositionRule h)"
  "enumToken (toString_ArtStyle i)" "enumToken (toString_BrushDetail j)"
proof -
  show "enumToken (toString_IGMode a)" by (cases a) (simp_all add: enumToken_def)
  show "enumToken (toString_SafetyProfile b)" by (cases b) (simp_all add: enumToken_def)
  show "enumToken (toString_QualityPreset c)" by (cases c) (simp_all add: enumToken_def)
  show "enumToken (toString_AspectRatio d)" by (cases d) (simp_all add: enumToken_def)
  show "enumToken (toString_ColorTone e)" by (cases e) (simp_all add: enumToken_def)
  show "enumToken (toString_Lighting f)" by (cases f) (simp_all add: enumToken_def)
  show "enumToken (toString_CameraAngle g)" by (cases g) (simp_all add: enumToken_def)
  show "enumToken (toString_CompositionRule h)" by (cases h) (simp_all add: enumToken_def)
  show "enumToken (toString_ArtStyle i)" by (cases i) (simp_all add: enumToken_def)
  show "enumToken (toString_BrushDetail j)" by (cases j) (simp_all add: enumToken_def)
qed

text \<open>
  C7: the output of \<^verbatim>\<open>serializeScenePlanToJSON\<close> is the compact rendering of the one
  JSON object the specification prescribes; its keys, and the keys of its nested objects,
  stand in the prescribed order; \<^verbatim>\<open>jsonEscape\<close> maps every byte through the
  specification's escaping table (backslash, double quote, newline, carriage return and
  tab escaped, any other byte below \<open>0x20\<close> dropped, every other byte unchanged);
  booleans are the tokens \<open>true\<close> and \<open>false\<close>; every enumeration is rendered through
  its \<^verbatim>\<open>toString\<close> table, which agrees entry by entry with the specification's table
  of lowercase, hyphenated tokens.
\<close>

theorem serialize_canonical_json:
  "serializeScenePlanToJSON to_string p = render (spec_planJSON to_string p)
   \<and> keyOrder (spec_planJSON to_string p) =
       [(''core_prompt'', []), (''mode'', []), (''safety_profile'', []),
        (''quality_preset'', []), (''aspect_ratio'', []),
        (''primary_subject'', [''name'', ''attributes'', ''position_hint'']),
        (''secondary_subjects'', []),
        (''background'', [''environment'', ''time_of_day'', ''weather'']),
        (''color_lighting'', [''color_tone'', ''lighting'', ''palette_hint'']),
        (''camera'', [''angle'', ''focal_length_mm'', ''depth_of_field'']),
        (''composition'', [''rule'', ''allow_cropping'', ''center_main_subject'']),
        (''art_style'', [''style'', ''brush_detail'', ''era_hint'']),
        (''negative_constraints'', [''visual_artifacts'', ''content_exclusions''])]
   \<and> jsonEscape s = concat (map spec_escapeByte s)
   \<and> jsonEscape [CHR ''a'', chDQ, chNL, chCR, chTAB, chBS, CHR 0x01, CHR 0x1F, CHR 0x80]
       = [CHR ''a'', chBS, chDQ, chBS, CHR ''n'', chBS, CHR ''r'', chBS, CHR ''t'', chBS, chBS,
          CHR 0x80]
   \<and> boolText True = ''true'' \<and> boolText False = ''false''
   \<and> toString_IGMode vm = spec_token_IGMode vm
   \<and> toString_SafetyProfile vs = spec_token_SafetyProfile vs
   \<and> toString_QualityPreset vq = spec_token_QualityPreset vq
   \<and> toString_AspectRatio vr = spec_token_AspectRatio vr
   \<and> toString_ColorTone vt = spec_token_ColorTone vt
   \<and> toString_Lighting vl = spec_token_Lighting vl
   \<and> toString_CameraAngle va = spec_token_CameraAngle va
   \<and> toString_CompositionRule vc = spec_token_CompositionRule vc
   \<and> toString_ArtStyle vy = spec_token_ArtStyle vy
   \<and> toString_BrushDetail vb = spec_token_BrushDetail vb
   \<and> toString_SafetyProfile AllowNSFW = ''allow-nsfw''
   \<and> toString_CompositionRule RuleOfThirds = ''rule-of-thirds''
   \<and> toString_CameraAngle TopDown = ''top-down''
   \<and> toString_AspectRatio Ratio_16_9 = ''16:9''
   \<and> enumToken (toString_IGMode (mode p))
   \<and> enumToken (toString_SafetyProfile (safety p))
   \<and> enumToken (toString_QualityPreset (quality p))
   \<and> enumToken (toString_AspectRatio (aspectRatio p))
   \<and> enumToken (toString_ColorTone (colorTone (colorLighting p)))
   \<and> enumToken (toString_Lighting (lighting (colorLighting p)))
   \<and> enumToken (toString_CameraAngle (angle (camera p)))
   \<and> enumToken (toString_CompositionRule (rule (composition p)))
   \<and> enumToken (toString_ArtStyle (style (artStyle p)))
   \<and> enumToken (toString_BrushDetail (brushDetail (artStyle p)))"
proof (intro conjI)
  show "serializeScenePlanToJSON to_string p = render (spec_planJSON to_string p)"
    by (rule serialize_render)
  show "jsonEscape s = concat (map spec_escapeByte s)"
    using jsonEscape_spec [of s] by (simp add: spec_escape_def)
  show "jsonEscape [CHR ''a'', chDQ, chNL, chCR, chTAB, chBS, CHR 0x01, CHR 0x1F, CHR 0x80]
       = [CHR ''a'', chBS, chDQ, chBS, CHR ''n'', chBS, CHR ''r'', chBS, CHR ''t'', chBS, chBS,
          CHR 0x80]"
    by code_simp
  show "boolText True = ''true''" "boolText False = ''false''"
    by (simp_all add: boolText_def)
  show "toString_SafetyProfile AllowNSFW = ''allow-nsfw''"
    "toString_CompositionRule RuleOfThirds = ''rule-of-thirds''"
    "toString_CameraAngle TopDown = ''top-down''"
    "toString_AspectRatio Ratio_16_9 = ''16:9''"
    by simp_all
qed (rule keyOrder_plan enumToken_tables toString_spec_tokens)+

section \<open>The two scenarios of the specification\<close>

lemma scenarioA_plan:
  "buildScenePlanFromPrompt scenarioA TextToImage Safe High =
     Inr \<lparr>
       corePrompt = scenarioA,
       primarySubject = \<lparr> name = ''thirds'', attributes = '''', positionHint = ''center'' \<rparr>,
       secondarySubjects = [],
       background = \<lparr> environment = '''', timeOfDay = '''', weather = '''' \<rparr>,
       colorLighting = \<lparr> colorTone = Neutral, lighting = Soft, paletteHint = '''' \<rparr>,
       camera = \<lparr> angle = EyeLevel, focalLengthMM = 35, depthOfField = False \<rparr>,
       composition = \<lparr> rule = RuleOfThirds, allowCropping = True, centerMainSubject = True \<rparr>,
       artStyle = \<lparr> style = Unspecified, brushDetail = BrushNormal, eraHint = '''' \<rparr>,
       negatives =
         \<lparr> visualArtifacts = ''blurry, extra limbs, distorted faces, text artifacts'',
           contentExclusions = ''no gore, no real-world logos'' \<rparr>,
       aspectRatio = Ratio_9_16,
       mode = TextToImage,
       safety = Safe,
       quality = High \<rparr>"
  by code_simp

lemma scenarioD_plan:
  "buildScenePlanFromPrompt scenarioD TextToImage Safe High =
     Inr \<lparr>
       corePrompt = scenarioD,
       primarySubject = \<lparr> name = ''9:16'', attributes = '''', positionHint = ''center'' \<rparr>,
       secondarySubjects = [],
       background = \<lparr> environment = ''forest'', timeOfDay = ''night'', weather = ''foggy'' \<rparr>,
       colorLighting = \<lparr> colorTone = Neutral, lighting = LightAuto, paletteHint = '''' \<rparr>,
       camera = \<lparr> angle = CloseUp, focalLengthMM = 35, depthOfField = True \<rparr>,
       composition = \<lparr> rule = RuleNone, allowCropping = True, centerMainSubject = True \<rparr>,
       artStyle = \<lparr> style = Anime, brushDetail = BrushNormal, eraHint = '''' \<rparr>,
       negatives =
         \<lparr> visualArtifacts = ''blurry, extra limbs, distorted faces, text artifacts'',
           contentExclusions = ''no gore, no real-world logos'' \<rparr>,
       aspectRatio = Ratio_9_16,
       mode = TextToImage,
       safety = Safe,
       quality = High \<rparr>"
  by code_simp

text \<open>
  The tokens of scenario D: the last one is \<open>9:16\<close>, which is no stop word, so the
  backward scan of \<^verbatim>\<open>guessSubjectName\<close> stops on it at once.
\<close>

lemma scenarioD_tokens:
  "splitTokens (toLowerASCII scenarioD) =
     [''close-up'', ''of'', ''a'', ''dragon'', ''in'', ''a'', ''foggy'', ''forest'', ''at'',
      ''night'', ''anime'', ''style'', ''9:16'']"
  by code_simp

text \<open>
  C3, as stated, fails: scenario A does not give the aspect ratio \<open>16:9\<close>. The prompt
  contains \<open>portrait\<close>, and the first rule of \<^verbatim>\<open>guessAspectFromText\<close>
  (\<open>vertical\<close>, \<open>portrait\<close> or \<open>9:16\<close>) wins before the rule for \<open>16:9\<close> is read.
\<close>

theorem scenarioA_claimed_fields_counterexample:
  "\<not> (\<exists>plan. buildScenePlanFromPrompt scenarioA TextToImage Safe High = Inr plan
        \<and> toString_AspectRatio (aspectRatio plan) = ''16:9''
        \<and> toString_Lighting (lighting (colorLighting plan)) = ''soft''
        \<and> toString_CompositionRule (rule (composition plan)) = ''rule-of-thirds''
        \<and> toString_CameraAngle (angle (camera plan)) = ''eye-level'')"
  by (simp add: scenarioA_plan)

text \<open>
  C3, amended: for scenario A with mode text-to-image, safety safe and quality high, the
  plan is built and has aspect ratio \<open>9:16\<close>, lighting \<open>soft\<close>, composition rule
  \<open>rule-of-thirds\<close> and camera angle \<open>eye-level\<close>.
\<close>

theorem scenarioA_fields:
  "\<exists>plan. buildScenePlanFromPrompt scenarioA TextToImage Safe High = Inr plan
      \<and> aspectRatio plan = Ratio_9_16
      \<and> toString_AspectRatio (aspectRatio plan) = ''9:16''
      \<and> lighting (colorLighting plan) = Soft
      \<and> toString_Lighting (lighting (colorLighting plan)) = ''soft''
      \<and> rule (composition plan) = RuleOfThirds
      \<and> toString_CompositionRule (rule (composition plan)) = ''rule-of-thirds''
      \<and> angle (camera plan) = EyeLevel
      \<and> toString_CameraAngle (angle (camera plan)) = ''eye-level''"
  by (simp add: scenarioA_plan)

text \<open>
  Mode, safety profile and quality preset are copied into the plan and read nowhere
  else, so the plan for any configuration is the plan above with these three fields set.
\<close>

lemma build_configuration:
  "buildScenePlanFromPrompt raw m sf q =
     map_sum id (\<lambda>p. p\<lparr>mode := m, safety := sf, quality := q\<rparr>)
       (buildScenePlanFromPrompt raw TextToImage Safe High)"
  by (simp add: buildScenePlanFromPrompt_def Let_def split: sum.splits)

lemma scenarioD_plan_any:
  "buildScenePlanFromPrompt scenarioD m sf q =
     Inr \<lparr>
       corePrompt = scenarioD,
       primarySubject = \<lparr> name = ''9:16'', attributes = '''', positionHint = ''center'' \<rparr>,
       secondarySubjects = [],
       background = \<lparr> environment = ''forest'', timeOfDay = ''night'', weather = ''foggy'' \<rparr>,
       colorLighting = \<lparr> colorTone = Neutral, lighting = LightAuto, paletteHint = '''' \<rparr>,
       camera = \<lparr> angle = CloseUp, focalLengthMM = 35, depthOfField = True \<rparr>,
       composition = \<lparr> rule = RuleNone, allowCropping = True, centerMainSubject = True \<rparr>,
       artStyle = \<lparr> style = Anime, brushDetail = BrushNormal, eraHint = '''' \<rparr>,
       negatives =
         \<lparr> visualArtifacts = ''blurry, extra limbs, distorted faces, text artifacts'',
           contentExclusions = ''no gore, no real-world logos'' \<rparr>,
       aspectRatio = Ratio_9_16,
       mode = m,
       safety = sf,
       quality = q \<rparr>"
  by (subst build_configuration) (simp add: scenarioD_plan)

text \<open>
  C4, as stated, fails: for no mode, safety profile and quality preset does scenario D
  give the subject name \<open>dragon\<close>. \<^verbatim>\<open>guessSubjectName\<close> returns the last token that is
  no stop word, and that is the final token \<open>9:16\<close>.
\<close>

theorem scenarioD_claimed_fields_counterexample:
  "\<not> (\<exists>m sf q plan. buildScenePlanFromPrompt scenarioD m sf q = Inr plan
        \<and> toString_CameraAngle (angle (camera plan)) = ''close-up''
        \<and> depthOfField (camera plan) = True
        \<and> environment (background plan) = ''forest''
        \<and> weather (background plan) = ''foggy''
        \<and> timeOfDay (background plan) = ''night''
        \<and> toString_ArtStyle (style (artStyle plan)) = ''anime''
        \<and> toString_AspectRatio (aspectRatio plan) = ''9:16''
        \<and> name (primarySubject plan) = ''dragon'')"
  by (simp add: scenarioD_plan_any)

text \<open>
  C4, amended: for scenario D, with any mode, safety profile and quality preset, the plan
  is built and has camera angle \<open>close-up\<close>, depth of field true, environment \<open>forest\<close>,
  weather \<open>foggy\<close>, time of day \<open>night\<close>, art style \<open>anime\<close>, aspect ratio \<open>9:16\<close>, and
  the subject name \<open>9:16\<close>.
\<close>

theorem scenarioD_fields:
  "\<exists>plan. buildScenePlanFromPrompt scenarioD m sf q = Inr plan
      \<and> angle (camera plan) = CloseUp
      \<and> toString_CameraAngle (angle (camera plan)) = ''close-up''
      \<and> depthOfField (camera plan) = True
      \<and> environment (background plan) = ''forest''
      \<and> weather (background plan) = ''foggy''
      \<and> timeOfDay (background plan) = ''night''
      \<and> style (artStyle plan) = Anime
      \<and> toString_ArtStyle (style (artStyle plan)) = ''anime''
      \<and> aspectRatio plan = Ratio_9_16
      \<and> toString_AspectRatio (aspectRatio plan) = ''9:16''
      \<and> name (primarySubject plan) = ''9:16''"
  by (simp add: scenarioD_plan_any)

text \<open>
  The control string of scenario A, with the \<^verbatim>\<open>float\<close> printed as \<^verbatim>\<open>35.000000\<close>.
\<close>

lemma scenarioA_json:
  "map_sum id jsonControl
     (BuildSemanticIGSpec (\<lambda>x. ''35.000000'') scenarioA TextToImage Safe High)
   = Inr (''{\"core_prompt\":\"A cinematic portrait, 16:9, soft lighting, rule o''
       @ ''f thirds\",\"mode\":\"text-to-image\",\"safety_profile\":\"safe\",\"''
       @ ''quality_preset\":\"high\",\"aspect_ratio\":\"9:16\",\"primary_subjec''
       @ ''t\":{\"name\":\"thirds\",\"attributes\":\"\",\"position_hint\":\"cen''
       @ ''ter\"},\"secondary_subjects\":[],\"background\":{\"environment\":\"\"''
       @ '',\"time_of_day\":\"\",\"weather\":\"\"},\"color_lighting\":{\"color_''
       @ ''tone\":\"neutral\",\"lighting\":\"soft\",\"palette_hint\":\"\"},\"ca''
       @ ''mera\":{\"angle\":\"eye-level\",\"focal_length_mm\":35.000000,\"dept''
       @ ''h_of_field\":false},\"composition\":{\"rule\":\"rule-of-thirds\",\"a''
       @ ''llow_cropping\":true,\"center_main_subject\":true},\"art_style\":{\"''
       @ ''style\":\"unspecified\",\"brush_detail\":\"normal\",\"era_hint\":\"\"''
       @ ''},\"negative_constraints\":{\"visual_artifacts\":\"blurry, extra lim''
       @ ''bs, distorted faces, text artifacts\",\"content_exclusions\":\"no go''
       @ ''re, no real-world logos\"}}'')"
  by code_simp

end
